theory Spec2Isabelle
  imports Main "HOL-Library.Word"
begin

section \<open>The registry crawler of \<open>main.go\<close>\<close>

text \<open>
  The program fetches the index page of a package registry, extracts the anchors of
  the page, fetches the page of every package, extracts the anchors of that page and
  asks for the size of every distribution with a HEAD request. All requests of the
  crawl go through a \<open>RequestManager\<close> that counts the requests issued and finished.

  The Go standard library is the environment of the program: URL parsing and
  resolution (\<open>net/url\<close>), the HTTP client (\<open>net/http\<close>) and the encoding of one CSV
  record (\<open>encoding/csv\<close>) are parameters of the model, collected in the record
  \<open>env\<close>. The regular expression of \<open>exctractUrls\<close> and the buffer of the CSV writer
  are modelled in the theory, since claims depend on them.
\<close>

subsection \<open>Errors, URLs and responses\<close>

text \<open>A Go \<open>error\<close> value, by the operation that produced it.\<close>

datatype error =
    ParseError string
  | NetError string
  | ReadError string
  | CreateError string

text \<open>
  An \<open>http.Response\<close> as far as the program reads it: \<open>response.Request.URL\<close> (the URL
  of the last request, after redirects), the outcome of \<open>io.ReadAll(response.Body)\<close>,
  and \<open>ContentLength\<close>, an \<open>int64\<close> that is \<open>-1\<close> when the length is unknown.
\<close>

record 'u response =
  Request_URL :: 'u
  Body :: "error + string"
  ContentLength :: "64 word"

text \<open>
  The environment. \<open>client_Do\<close> is \<open>http.DefaultClient.Do\<close>: its answer may depend on
  the requests sent before (the list of method and URL of each), on the method and on
  the URL. \<open>os_Create\<close> is the error of \<open>os.Create("output.csv")\<close>, if any.
\<close>

record 'u env =
  url_Parse :: "string \<Rightarrow> error + 'u"
  url_String :: "'u \<Rightarrow> string"
  ResolveReference :: "'u \<Rightarrow> 'u \<Rightarrow> 'u"
  client_Do :: "(string \<times> 'u) list \<Rightarrow> string \<Rightarrow> 'u \<Rightarrow> error + 'u response"
  csv_record :: "string list \<Rightarrow> string"
  os_Create :: "error option"

subsection \<open>RequestManager\<close>

text \<open>The two counters are \<open>atomic.Int64\<close>: 64-bit, wrapping, read as signed.\<close>

record RequestManager =
  totalRequests :: "64 word"
  requestsFinished :: "64 word"
  maxConcurrentRequests :: "64 word"
  requestRetryDelay :: "64 word"

definition getRunningRequests :: "RequestManager \<Rightarrow> 64 word" where
  "getRunningRequests client = totalRequests client - requestsFinished client"

text \<open>
  The state a request works on: the manager and the requests that went out on the
  wire so far, oldest first.
\<close>

record 'u world =
  manager :: RequestManager
  wire :: "(string \<times> 'u) list"

text \<open>
  The wait loop of \<open>Request\<close> (lines 58 to 60) as one caller runs it while no other
  caller moves: \<open>time.Sleep\<close> changes nothing, so the loop either ends at once or
  never; never is the value \<open>None\<close>.
\<close>

partial_function (option) spin :: "RequestManager \<Rightarrow> unit option" where
  "spin client =
     (if sint (maxConcurrentRequests client) \<le> sint (getRunningRequests client)
      then spin client
      else Some ())"

declare spin.simps [code]

definition Request ::
  "'u env \<Rightarrow> string \<Rightarrow> string \<Rightarrow> ('u, 'z) world_scheme
     \<Rightarrow> ((error + 'u response) \<times> ('u, 'z) world_scheme) option" where
  "Request e method request_url w =
     (case spin (manager w) of
        None \<Rightarrow> None
      | Some _ \<Rightarrow>
          (case url_Parse e request_url of
             Inl err \<Rightarrow> Some (Inl err, w)
           | Inr u \<Rightarrow>
               let w1 = w\<lparr>manager := (manager w)\<lparr>totalRequests := totalRequests (manager w) + 1\<rparr>\<rparr>;
                   result = client_Do e (wire w1) method u;
                   w2 = w1\<lparr>wire := wire w1 @ [(method, u)]\<rparr>;
                   w3 = w2\<lparr>manager := (manager w2)\<lparr>requestsFinished := requestsFinished (manager w2) + 1\<rparr>\<rparr>
               in Some (result, w3)))"

definition Get ::
  "'u env \<Rightarrow> string \<Rightarrow> ('u, 'z) world_scheme
     \<Rightarrow> ((error + 'u response) \<times> ('u, 'z) world_scheme) option" where
  "Get e request_url w = Request e ''GET'' request_url w"

definition Head ::
  "'u env \<Rightarrow> string \<Rightarrow> ('u, 'z) world_scheme
     \<Rightarrow> ((error + 'u response) \<times> ('u, 'z) world_scheme) option" where
  "Head e request_url w = Request e ''HEAD'' request_url w"

subsection \<open>Packages and distributions\<close>

record Package =
  name :: string
  url :: string

text \<open>\<open>pkg\<close> is a pointer to the package; the zero value is \<open>nil\<close>.\<close>

record Distribution =
  pkg :: "Package option"
  name :: string
  url :: string

text \<open>
  \<open>getSizeBytes\<close> returns the pair \<open>(int, error)\<close>; \<open>int\<close> has 64 bits on the platforms
  the program is built for, so \<open>int(response.ContentLength)\<close> keeps every bit.
\<close>

definition getSizeBytes ::
  "'u env \<Rightarrow> Distribution \<Rightarrow> ('u, 'z) world_scheme
     \<Rightarrow> ((64 word \<times> error option) \<times> ('u, 'z) world_scheme) option" where
  "getSizeBytes e dist w =
     (case Head e (Distribution.url dist) w of
        None \<Rightarrow> None
      | Some (Inl err, w') \<Rightarrow> Some ((0, Some err), w')
      | Some (Inr response, w') \<Rightarrow> Some ((ContentLength response, None), w'))"

subsection \<open>The anchor pattern\<close>

text \<open>
  \<open>exctractUrls\<close> scans the page with the regular expression
  \<^verbatim>\<open><a href=\"([^\"]*)".*>([^<]*)</a>\<close>.
  Go's \<open>regexp\<close> returns the match a backtracking matcher finds first: the leftmost
  start, and every starred item as long as the rest of the pattern allows. The dot
  matches every character but the line feed. A page is a list of bytes; the
  characters the pattern names are ASCII, so matching on bytes and on UTF-8 runes
  agree.
\<close>

definition dquote :: char where
  "dquote = CHR 0x22"

definition newline :: char where
  "newline = CHR 0x0A"

fun strip_prefix :: "string \<Rightarrow> string \<Rightarrow> string option" where
  "strip_prefix [] s = Some s"
| "strip_prefix (p # ps) [] = None"
| "strip_prefix (p # ps) (c # cs) = (if p = c then strip_prefix ps cs else None)"

text \<open>
  \<^verbatim>\<open>([^<]*)</a>\<close> at the head of \<open>s\<close>: the group is the longest run without \<open><\<close>
  (a shorter run would be followed by a character that is not \<open><\<close>). The result is
  the group and the input after the match.
\<close>

definition text_close :: "string \<Rightarrow> (string \<times> string) option" where
  "text_close s =
     (case strip_prefix ''</a>'' (dropWhile (\<lambda>c. c \<noteq> CHR ''<'') s) of
        None \<Rightarrow> None
      | Some rest \<Rightarrow> Some (takeWhile (\<lambda>c. c \<noteq> CHR ''<'') s, rest))"

text \<open>
  \<^verbatim>\<open>.*>([^<]*)</a>\<close> at the head of the input: the greedy star first tries to take
  one more character, and only when the rest fails after that does it stop here, where
  the next character has to be \<open>>\<close>.
\<close>

fun dot_star_gt :: "string \<Rightarrow> (string \<times> string) option" where
  "dot_star_gt [] = None"
| "dot_star_gt (c # cs) =
     (if c = newline then None
      else (case dot_star_gt cs of
              Some m \<Rightarrow> Some m
            | None \<Rightarrow> (if c = CHR ''>'' then text_close cs else None)))"

text \<open>The opening tag up to the quote, and a whole anchor as the pattern expects it.\<close>

definition anchor_open :: string where
  "anchor_open = ''<a href='' @ [dquote]"

definition anchor_html :: "string \<Rightarrow> string \<Rightarrow> string" where
  "anchor_html h t = anchor_open @ h @ [dquote] @ ''>'' @ t @ ''</a>''"

text \<open>
  The whole pattern at the head of the input: the two groups and the input after the
  match.
\<close>

definition anchor_match :: "string \<Rightarrow> ((string \<times> string) \<times> string) option" where
  "anchor_match s =
     (case strip_prefix anchor_open s of
        None \<Rightarrow> None
      | Some r1 \<Rightarrow>
          (case dropWhile (\<lambda>c. c \<noteq> dquote) r1 of
             [] \<Rightarrow> None
           | q # r2 \<Rightarrow>
               (case dot_star_gt r2 of
                  None \<Rightarrow> None
                | Some (t, rest) \<Rightarrow> Some ((takeWhile (\<lambda>c. c \<noteq> dquote) r1, t), rest))))"

text \<open>
  \<open>FindAllSubmatch(body, -1)\<close>: the matches from left to right, each search starting
  where the match before ended. Of every match the two groups are kept.
\<close>

function FindAllSubmatch :: "string \<Rightarrow> (string \<times> string) list" where
  "FindAllSubmatch [] = []"
| "FindAllSubmatch (c # cs) =
     (case anchor_match (c # cs) of
        Some (groups, rest) \<Rightarrow> groups # FindAllSubmatch rest
      | None \<Rightarrow> FindAllSubmatch cs)"
  by pat_completeness auto
termination
proof (relation "measure length")
  show "wf (measure length)" by simp
next
  fix c :: char and cs :: string and x2 groups rest
  assume m: "anchor_match (c # cs) = Some x2" and x2: "(groups, rest) = x2"
  have sp: "strip_prefix p s = Some r \<Longrightarrow> length r \<le> length s" for p s r
    by (induction p s rule: strip_prefix.induct) (auto split: if_splits)
  have sp1: "strip_prefix (p # ps) s = Some r \<Longrightarrow> length r < length s" for p ps s r
    using sp [of ps "tl s" r] by (cases s) (auto split: if_splits)
  have tc: "text_close s = Some (t, r) \<Longrightarrow> length r \<le> length s" for s t r
  proof -
    assume "text_close s = Some (t, r)"
    then have "strip_prefix ''</a>'' (dropWhile (\<lambda>c. c \<noteq> CHR ''<'') s) = Some r"
      by (auto simp: text_close_def split: option.splits)
    from sp [OF this] have "length r \<le> length (dropWhile (\<lambda>c. c \<noteq> CHR ''<'') s)" .
    also have "\<dots> \<le> length s" by (rule length_dropWhile_le)
    finally show ?thesis .
  qed
  have ds: "dot_star_gt s = Some (t, r) \<Longrightarrow> length r \<le> length s" for s t r
  proof (induction s)
    case Nil
    then show ?case by simp
  next
    case (Cons a s)
    then show ?case
      by (auto split: if_splits option.splits dest: tc)
  qed
  from m x2 obtain r1 q r2 t where
    r1: "strip_prefix anchor_open (c # cs) = Some r1" and
    r2: "dropWhile (\<lambda>c. c \<noteq> dquote) r1 = q # r2" and
    r3: "dot_star_gt r2 = Some (t, rest)"
    by (auto simp: anchor_match_def split: option.splits list.splits)
  have "length rest \<le> length r2" using ds [OF r3] .
  also have "\<dots> < length (dropWhile (\<lambda>c. c \<noteq> dquote) r1)" using r2 by simp
  also have "\<dots> \<le> length r1" by (rule length_dropWhile_le)
  also have "\<dots> \<le> length (c # cs)" using sp [OF r1] .
  finally show "(rest, c # cs) \<in> measure length" by simp
next
  fix c :: char and cs :: string
  show "(cs, c # cs) \<in> measure length" by simp
qed

record AnchorTag =
  href :: string
  text' :: string

text \<open>The loop of lines 141 to 143 writes slot \<open>i\<close> of the slice made before it.\<close>

fun fillUrls :: "nat \<Rightarrow> (string \<times> string) list \<Rightarrow> AnchorTag list \<Rightarrow> AnchorTag list" where
  "fillUrls i [] urls = urls"
| "fillUrls i (anchor # rest) urls =
     fillUrls (i + 1) rest (urls[i := \<lparr>href = fst anchor, text' = snd anchor\<rparr>])"

definition exctractUrls :: "string \<Rightarrow> AnchorTag list" where
  "exctractUrls body =
     (let anchors = FindAllSubmatch body;
          urls = replicate (length anchors) \<lparr>href = [], text' = []\<rparr>
      in fillUrls 0 anchors urls)"

subsection \<open>Discovery\<close>

text \<open>
  The loop of lines 121 to 128. Its test of \<open>err\<close> reads the variable that the check
  of line 115 left; the loop never assigns it.
\<close>

fun fillDistributions ::
  "Package \<Rightarrow> error option \<Rightarrow> nat \<Rightarrow> AnchorTag list \<Rightarrow> Distribution list
     \<Rightarrow> error + Distribution list" where
  "fillDistributions p err i [] distributions = Inr distributions"
| "fillDistributions p err i (anchorTag # rest) distributions =
     (case err of
        Some e \<Rightarrow> Inl e
      | None \<Rightarrow>
          fillDistributions p err (i + 1) rest
            (distributions[i := \<lparr>pkg = Some p, name = text' anchorTag, url = href anchorTag\<rparr>]))"

definition getDistributions ::
  "'u env \<Rightarrow> Package \<Rightarrow> ('u, 'z) world_scheme
     \<Rightarrow> ((error + Distribution list) \<times> ('u, 'z) world_scheme) option" where
  "getDistributions e p w =
     (case Get e (Package.url p) w of
        None \<Rightarrow> None
      | Some (Inl err, w') \<Rightarrow> Some (Inl err, w')
      | Some (Inr response, w') \<Rightarrow>
          (case Body response of
             Inl err \<Rightarrow> Some (Inl err, w')
           | Inr body \<Rightarrow>
               let urls = exctractUrls body;
                   distributions = replicate (length urls) \<lparr>pkg = None, name = [], url = []\<rparr>
               in Some (fillDistributions p None 0 urls distributions, w')))"

text \<open>
  \<open>http.Get\<close> of the default client, which \<open>getPackages\<close> calls: it parses the URL
  and sends the request; no \<open>RequestManager\<close> is involved.
\<close>

definition http_Get ::
  "'u env \<Rightarrow> string \<Rightarrow> (string \<times> 'u) list
     \<Rightarrow> (error + 'u response) \<times> (string \<times> 'u) list" where
  "http_Get e request_url wr =
     (case url_Parse e request_url of
        Inl err \<Rightarrow> (Inl err, wr)
      | Inr u \<Rightarrow> (client_Do e wr ''GET'' u, wr @ [(''GET'', u)]))"

fun fillPackages ::
  "'u env \<Rightarrow> 'u response \<Rightarrow> nat \<Rightarrow> AnchorTag list \<Rightarrow> Package list
     \<Rightarrow> error + Package list" where
  "fillPackages e response i [] packages = Inr packages"
| "fillPackages e response i (anchorTag # rest) packages =
     (case url_Parse e (href anchorTag) of
        Inl err \<Rightarrow> Inl err
      | Inr u \<Rightarrow>
          let package_url = ResolveReference e (Request_URL response) u
          in fillPackages e response (i + 1) rest
               (packages[i := \<lparr>Package.name = text' anchorTag,
                               Package.url = url_String e package_url\<rparr>]))"

definition getPackages ::
  "'u env \<Rightarrow> string \<Rightarrow> (string \<times> 'u) list
     \<Rightarrow> (error + Package list) \<times> (string \<times> 'u) list" where
  "getPackages e registry_url wr =
     (case http_Get e registry_url wr of
        (Inl err, wr') \<Rightarrow> (Inl err, wr')
      | (Inr response, wr') \<Rightarrow>
          (case Body response of
             Inl err \<Rightarrow> (Inl err, wr')
           | Inr body \<Rightarrow>
               let urls = exctractUrls body;
                   packages = replicate (length urls) \<lparr>Package.name = [], Package.url = []\<rparr>
               in (fillPackages e response 0 urls packages, wr')))"

subsection \<open>The output file\<close>

text \<open>
  \<open>csv.NewWriter(f)\<close> writes through a \<open>bufio.Writer\<close> of 4096 bytes: \<open>buf\<close> holds the
  bytes written and not yet passed on, \<open>csv_file\<close> the bytes that reached \<open>output.csv\<close>.
  A write that does not fit fills the buffer, passes the full buffer on to the file and
  goes on with what is left of the string; only that, and \<open>Flush\<close>, move bytes to the
  file.
\<close>

record Writer =
  buf :: string
  csv_file :: string

function bufio_WriteString :: "string \<Rightarrow> Writer \<Rightarrow> Writer" where
  "bufio_WriteString s w =
     (if 4096 - length (buf w) < length s
      then bufio_WriteString (drop (4096 - length (buf w)) s)
             \<lparr>buf = [], csv_file = csv_file w @ buf w @ take (4096 - length (buf w)) s\<rparr>
      else w\<lparr>buf := buf w @ s\<rparr>)"
  by pat_completeness auto
termination
  by (relation "measure (\<lambda>(s, w). length s + length (buf w))") auto

declare bufio_WriteString.simps [simp del]

definition csv_Write :: "'u env \<Rightarrow> string list \<Rightarrow> Writer \<Rightarrow> Writer" where
  "csv_Write e row w = bufio_WriteString (csv_record e row) w"

text \<open>\<open>fmt.Sprintf("%d", size)\<close>: the decimal digits, after a minus sign below zero.\<close>

fun digits :: "nat \<Rightarrow> string" where
  "digits n =
     (if n < 10 then [''0123456789'' ! n]
      else digits (n div 10) @ [''0123456789'' ! (n mod 10)])"

declare digits.simps [simp del]

definition Sprintf_d :: "64 word \<Rightarrow> string" where
  "Sprintf_d sz =
     (if sint sz < 0 then CHR ''-'' # digits (nat (- sint sz)) else digits (nat (sint sz)))"

subsection \<open>The crawl\<close>

text \<open>
  The state of the process during the crawl: the manager and the wire, the three
  progress counters (\<open>atomic.Uint32\<close>, \<open>atomic.Uint32\<close>, \<open>atomic.Uint64\<close>) and the CSV
  writer.
\<close>

record 'u proc = "'u world" +
  packagesScraped :: "32 word"
  distributionsFound :: "32 word"
  totalSizeBytes :: "64 word"
  writer :: Writer

text \<open>
  One turn of the loop of lines 227 to 235. The result is the error that makes the
  goroutine panic, if any, and the state. \<open>uint64(size)\<close> keeps the 64 bits of \<open>size\<close>.
\<close>

definition probe ::
  "'u env \<Rightarrow> Package \<Rightarrow> Distribution \<Rightarrow> 'u proc \<Rightarrow> (error option \<times> 'u proc) option" where
  "probe e p distribution st =
     (let st1 = st\<lparr>distributionsFound := distributionsFound st + 1\<rparr>
      in case getSizeBytes e distribution st1 of
           None \<Rightarrow> None
         | Some ((sz, err), st2) \<Rightarrow>
             let st3 = st2\<lparr>totalSizeBytes := totalSizeBytes st2 + sz\<rparr>
             in (case err of
                   Some er \<Rightarrow> Some (Some er, st3)
                 | None \<Rightarrow>
                     Some (None,
                       st3\<lparr>writer :=
                         csv_Write e
                           [Package.name p, Distribution.name distribution, Sprintf_d sz]
                           (writer st3)\<rparr>)))"

fun probes ::
  "'u env \<Rightarrow> Package \<Rightarrow> Distribution list \<Rightarrow> 'u proc \<Rightarrow> (error option \<times> 'u proc) option" where
  "probes e p [] st = Some (None, st)"
| "probes e p (distribution # rest) st =
     (case probe e p distribution st of
        None \<Rightarrow> None
      | Some (Some er, st') \<Rightarrow> Some (Some er, st')
      | Some (None, st') \<Rightarrow> probes e p rest st')"

text \<open>The body of the goroutine of lines 222 to 238.\<close>

definition goroutine ::
  "'u env \<Rightarrow> Package \<Rightarrow> 'u proc \<Rightarrow> (error option \<times> 'u proc) option" where
  "goroutine e p st =
     (case getDistributions e p st of
        None \<Rightarrow> None
      | Some (Inl err, st') \<Rightarrow> Some (Some err, st')
      | Some (Inr distributions, st') \<Rightarrow> probes e p distributions st')"

text \<open>
  The loop of lines 218 to 240 under the schedule in which every goroutine runs to
  its end before the next one is launched. It is one of the schedules the runtime can
  choose; the others interleave the goroutines.
\<close>

fun crawl :: "'u env \<Rightarrow> Package list \<Rightarrow> 'u proc \<Rightarrow> (error option \<times> 'u proc) option" where
  "crawl e [] st = Some (None, st)"
| "crawl e (p # rest) st =
     (case goroutine e p (st\<lparr>packagesScraped := packagesScraped st + 1\<rparr>) of
        None \<Rightarrow> None
      | Some (Some er, st') \<Rightarrow> Some (Some er, st')
      | Some (None, st') \<Rightarrow> crawl e rest st')"

text \<open>How the process ends: one of the four panics, or the return of \<open>main\<close>.\<close>

datatype 'u exit =
    PanicDiscovery error "(string \<times> 'u) list"
  | PanicCreate error "(string \<times> 'u) list"
  | PanicUnit error "'u proc"
  | Finished "'u proc"

definition newRequestManager :: RequestManager where
  "newRequestManager =
     \<lparr>totalRequests = 0, requestsFinished = 0,
      maxConcurrentRequests = 10000, requestRetryDelay = 1000000000\<rparr>"

text \<open>
  \<open>main\<close>. After the loop \<open>f.Close()\<close> closes the file; the program never calls \<open>Flush\<close>
  on the CSV writer, so \<open>csv_file\<close> is what the buffer passed on while it was written to.
  The goroutine that prints the progress line reads the counters only.
\<close>

definition main :: "'u env \<Rightarrow> 'u exit option" where
  "main e =
     (case getPackages e ''https://pypi.org/simple/'' [] of
        (Inl err, wr) \<Rightarrow> Some (PanicDiscovery err wr)
      | (Inr packages, wr) \<Rightarrow>
          (case os_Create e of
             Some err \<Rightarrow> Some (PanicCreate err wr)
           | None \<Rightarrow>
               let st = \<lparr>manager = newRequestManager, wire = wr,
                         packagesScraped = 0, distributionsFound = 0, totalSizeBytes = 0,
                         writer = csv_Write e [''Package'', ''Distribution'', ''Size'']
                                    \<lparr>buf = [], csv_file = []\<rparr>\<rparr>
               in (case crawl e packages st of
                     None \<Rightarrow> None
                   | Some (Some er, st') \<Rightarrow> Some (PanicUnit er st')
                   | Some (None, st') \<Rightarrow> Some (Finished st'))))"

text \<open>The content of \<open>output.csv\<close> once it has been created.\<close>

fun output_csv :: "'u exit \<Rightarrow> string option" where
  "output_csv (PanicDiscovery err wr) = None"
| "output_csv (PanicCreate err wr) = None"
| "output_csv (PanicUnit err st) = Some (csv_file (writer st))"
| "output_csv (Finished st) = Some (csv_file (writer st))"

subsection \<open>Concurrent callers of \<open>Request\<close>\<close>

text \<open>
  The goroutines call \<open>Request\<close> concurrently. Each caller is at one point of the
  function; a step of a caller is one atomic operation on the counters, or a piece of
  code that touches nothing shared:
  \<^item> \<open>Spinning\<close>: at the test of line 58, before \<open>totalRequests.Load()\<close>;
  \<^item> \<open>LoadedTotal t\<close>: inside \<open>getRunningRequests\<close>, with \<open>totalRequests\<close> read as \<open>t\<close>,
    before \<open>requestsFinished.Load()\<close>;
  \<^item> \<open>Counted r\<close>: \<open>getRunningRequests\<close> has returned \<open>r\<close>, before the comparison;
  \<^item> \<open>Parsing\<close>: at line 62;
  \<^item> \<open>Issuing\<close>: before \<open>totalRequests.Add(1)\<close>;
  \<^item> \<open>InFlight\<close>: before \<open>http.DefaultClient.Do\<close>;
  \<^item> \<open>Completing\<close>: the response is there, before \<open>requestsFinished.Add(1)\<close>;
  \<^item> \<open>Returned\<close>: \<open>Request\<close> has returned.
  \<open>Idle\<close> is a caller that has not called yet.
\<close>

datatype 'u pc =
    Idle
  | Spinning string string
  | LoadedTotal string string "64 word"
  | Counted string string "64 word"
  | Parsing string string
  | Issuing string 'u
  | InFlight string 'u
  | Completing "error + 'u response"
  | Returned "error + 'u response"

record 'u pool = "'u world" +
  callers :: "'u pc list"

definition set_caller :: "nat \<Rightarrow> 'u pc \<Rightarrow> 'u pool \<Rightarrow> 'u pool" where
  "set_caller i c s = s\<lparr>callers := (callers s)[i := c]\<rparr>"

fun step_pc :: "'u env \<Rightarrow> nat \<Rightarrow> 'u pc \<Rightarrow> 'u pool \<Rightarrow> 'u pool" where
  "step_pc e i Idle s = s"
| "step_pc e i (Spinning m request_url) s =
     set_caller i (LoadedTotal m request_url (totalRequests (manager s))) s"
| "step_pc e i (LoadedTotal m request_url t) s =
     set_caller i (Counted m request_url (t - requestsFinished (manager s))) s"
| "step_pc e i (Counted m request_url r) s =
     (if sint (maxConcurrentRequests (manager s)) \<le> sint r
      then set_caller i (Spinning m request_url) s
      else set_caller i (Parsing m request_url) s)"
| "step_pc e i (Parsing m request_url) s =
     (case url_Parse e request_url of
        Inl err \<Rightarrow> set_caller i (Returned (Inl err)) s
      | Inr u \<Rightarrow> set_caller i (Issuing m u) s)"
| "step_pc e i (Issuing m u) s =
     set_caller i (InFlight m u)
       (s\<lparr>manager := (manager s)\<lparr>totalRequests := totalRequests (manager s) + 1\<rparr>\<rparr>)"
| "step_pc e i (InFlight m u) s =
     set_caller i (Completing (client_Do e (wire s) m u)) (s\<lparr>wire := wire s @ [(m, u)]\<rparr>)"
| "step_pc e i (Completing result) s =
     set_caller i (Returned result)
       (s\<lparr>manager := (manager s)\<lparr>requestsFinished := requestsFinished (manager s) + 1\<rparr>\<rparr>)"
| "step_pc e i (Returned result) s = s"

text \<open>
  What the scheduler can do: let caller \<open>i\<close> take its next step, or let a caller that
  is outside \<open>Request\<close> call it.
\<close>

datatype action =
    Step nat
  | Call nat string string

fun act :: "'u env \<Rightarrow> action \<Rightarrow> 'u pool \<Rightarrow> 'u pool" where
  "act e (Step i) s =
     (if i < length (callers s) then step_pc e i (callers s ! i) s else s)"
| "act e (Call i m request_url) s =
     (if i < length (callers s)
      then (case callers s ! i of
              Idle \<Rightarrow> set_caller i (Spinning m request_url) s
            | Returned result \<Rightarrow> set_caller i (Spinning m request_url) s
            | _ \<Rightarrow> s)
      else s)"

fun exec :: "'u env \<Rightarrow> action list \<Rightarrow> 'u pool \<Rightarrow> 'u pool" where
  "exec e [] s = s"
| "exec e (a # as) s = exec e as (act e a s)"

text \<open>
  The start: a manager whose counters are zero, as \<open>main\<close> makes it, with any ceiling,
  and \<open>n\<close> callers outside \<open>Request\<close>.
\<close>

definition init :: "64 word \<Rightarrow> nat \<Rightarrow> 'u pool" where
  "init ceiling n =
     \<lparr>manager = newRequestManager\<lparr>maxConcurrentRequests := ceiling\<rparr>, wire = [],
      callers = replicate n Idle\<rparr>"

text \<open>A caller counts as running from its \<open>Add\<close> on \<open>totalRequests\<close> to the one on \<open>requestsFinished\<close>.\<close>

fun running :: "'u pc \<Rightarrow> bool" where
  "running (InFlight m u) = True"
| "running (Completing result) = True"
| "running c = False"

subsection \<open>A registry of two packages\<close>

text \<open>
  An environment to run the program in: URLs are strings; the index page, and the
  content lengths the two HEAD requests report, are parameters; the body of one more
  package page cannot be read to its end. \<open>url.Parse\<close> refuses a
  string that starts with a colon (a scheme is missing), and \<open>ResolveReference\<close> is the
  resolution of \<open>net/url\<close> for the three shapes of reference used here: a reference with
  a scheme stands for itself, one that starts with a slash replaces the path of the
  base, any other replaces the last segment of the base path.
\<close>

definition demo_Parse :: "string \<Rightarrow> error + string" where
  "demo_Parse s =
     (case s of
        [] \<Rightarrow> Inr s
      | c # cs \<Rightarrow> if c = CHR '':'' then Inl (ParseError ''missing protocol scheme'') else Inr s)"

definition demo_Resolve :: "string \<Rightarrow> string \<Rightarrow> string" where
  "demo_Resolve base ref =
     (if CHR '':'' \<in> set (takeWhile (\<lambda>c. c \<noteq> CHR ''/'') ref) then ref
      else if take 1 ref = ''/''
      then takeWhile (\<lambda>c. c \<noteq> CHR '':'') base @ ''://''
             @ takeWhile (\<lambda>c. c \<noteq> CHR ''/'') (drop 3 (dropWhile (\<lambda>c. c \<noteq> CHR '':'') base))
             @ ref
      else rev (dropWhile (\<lambda>c. c \<noteq> CHR ''/'') (rev base)) @ ref)"

definition demo_response :: "string \<Rightarrow> string \<Rightarrow> 64 word \<Rightarrow> string response" where
  "demo_response u body len = \<lparr>Request_URL = u, Body = Inr body, ContentLength = len\<rparr>"

definition demo_Do ::
  "string \<Rightarrow> 64 word \<Rightarrow> 64 word \<Rightarrow> (string \<times> string) list \<Rightarrow> string \<Rightarrow> string
     \<Rightarrow> error + string response" where
  "demo_Do index lenA lenB wr m u =
     (if m = ''GET'' \<and> u = ''https://pypi.org/simple/''
      then Inr (demo_response u index (- 1))
      else if m = ''GET'' \<and> u = ''https://pypi.org/simple/pkga/''
      then Inr (demo_response u (anchor_html ''https://files.org/a.whl'' ''a.whl'' @ [newline]) (- 1))
      else if m = ''GET'' \<and> u = ''https://pypi.org/simple/pkgb/''
      then Inr (demo_response u (anchor_html ''https://files.org/b.whl'' ''b.whl'' @ [newline]) (- 1))
      else if m = ''GET'' \<and> u = ''https://pypi.org/simple/broken/''
      then Inr \<lparr>Request_URL = u, Body = Inl (ReadError ''unexpected EOF''), ContentLength = - 1\<rparr>
      else if m = ''HEAD'' \<and> u = ''https://files.org/a.whl''
      then Inr (demo_response u [] lenA)
      else if m = ''HEAD'' \<and> u = ''https://files.org/b.whl''
      then Inr (demo_response u [] lenB)
      else Inl (NetError ''no such host''))"

definition demo_record :: "string list \<Rightarrow> string" where
  "demo_record row =
     (case row of
        [] \<Rightarrow> [newline]
      | f # fs \<Rightarrow> f @ concat (map (\<lambda>g. CHR '','' # g) fs) @ [newline])"

definition demo_env :: "string \<Rightarrow> 64 word \<Rightarrow> 64 word \<Rightarrow> string env" where
  "demo_env index lenA lenB =
     \<lparr>url_Parse = demo_Parse, url_String = (\<lambda>u. u), ResolveReference = demo_Resolve,
      client_Do = demo_Do index lenA lenB, csv_record = demo_record, os_Create = None\<rparr>"

definition demo_index :: string where
  "demo_index =
     anchor_html ''/simple/pkga/'' ''pkgA'' @ [newline]
       @ anchor_html ''/simple/pkgb/'' ''pkgB'' @ [newline]"

text \<open>
  Two more index pages: one with a relative reference, one with a reference that does
  not parse.
\<close>

definition relative_index :: string where
  "relative_index = anchor_html ''pkg-a/'' ''pkg-a'' @ [newline]"

definition bad_index :: string where
  "bad_index =
     anchor_html ''/simple/pkga/'' ''pkgA'' @ [newline] @ anchor_html '':bad'' ''pkgB'' @ [newline]"

text \<open>The state in which \<open>main\<close> starts the crawl when nothing was sent before.\<close>

definition world0 :: "string world" where
  "world0 = \<lparr>manager = newRequestManager, wire = []\<rparr>"

text \<open>
  The state at the start of the crawl with an empty writer, a package and two
  distributions to probe; the host of the second one does not exist.
\<close>

definition proc0 :: "string proc" where
  "proc0 = \<lparr>manager = newRequestManager, wire = [], packagesScraped = 0,
            distributionsFound = 0, totalSizeBytes = 0,
            writer = \<lparr>buf = [], csv_file = []\<rparr>\<rparr>"

definition pkgA :: Package where
  "pkgA = \<lparr>Package.name = ''pkgA'', Package.url = ''https://pypi.org/simple/pkga/''\<rparr>"

definition pkgBroken :: Package where
  "pkgBroken =
     \<lparr>Package.name = ''broken'', Package.url = ''https://pypi.org/simple/broken/''\<rparr>"

definition pkgGone :: Package where
  "pkgGone = \<lparr>Package.name = ''gone'', Package.url = ''https://pypi.org/simple/gone/''\<rparr>"

definition distA :: Distribution where
  "distA = \<lparr>pkg = None, name = ''a.whl'', url = ''https://files.org/a.whl''\<rparr>"

definition distGone :: Distribution where
  "distGone = \<lparr>pkg = None, name = ''gone.whl'', url = ''https://files.org/gone.whl''\<rparr>"

subsection \<open>What a run leaves behind\<close>

text \<open>
  What a run leaves behind: whether \<open>main\<close> returned, and all bytes the program gave to
  the CSV writer, those in the file followed by those still in the buffer.
\<close>

fun finished :: "'u exit \<Rightarrow> bool" where
  "finished (Finished st) = True"
| "finished x = False"

fun sink :: "'u exit \<Rightarrow> string" where
  "sink (PanicDiscovery err wr) = []"
| "sink (PanicCreate err wr) = []"
| "sink (PanicUnit err st) = csv_file (writer st) @ buf (writer st)"
| "sink (Finished st) = csv_file (writer st) @ buf (writer st)"

definition report :: "'u exit \<Rightarrow> bool \<times> string" where
  "report x = (finished x, sink x)"

text \<open>
  Between two requests of a run in which the goroutines take turns: no request is
  under way, the counters agree, and they have counted all requests on the wire but
  the first \<open>k\<close>.
\<close>

definition settled :: "nat \<Rightarrow> ('u, 'z) world_scheme \<Rightarrow> bool" where
  "settled k w =
     (totalRequests (manager w) + of_nat k = of_nat (length (wire w))
      \<and> requestsFinished (manager w) = totalRequests (manager w)
      \<and> maxConcurrentRequests (manager w) = 10000)"

text \<open>The requests sent during a run, and the counters of the manager if it was made.\<close>

fun sent :: "'u exit \<Rightarrow> (string \<times> 'u) list" where
  "sent (PanicDiscovery err wr) = wr"
| "sent (PanicCreate err wr) = wr"
| "sent (PanicUnit err st) = wire st"
| "sent (Finished st) = wire st"

fun counters :: "'u exit \<Rightarrow> (64 word \<times> 64 word) option" where
  "counters (PanicDiscovery err wr) = None"
| "counters (PanicCreate err wr) = None"
| "counters (PanicUnit err st) =
     Some (totalRequests (manager st), requestsFinished (manager st))"
| "counters (Finished st) =
     Some (totalRequests (manager st), requestsFinished (manager st))"

subsection \<open>Counting the running callers\<close>

text \<open>
  The counters are balanced when \<open>totalRequests\<close> is ahead of \<open>requestsFinished\<close> by
  the number of running callers. \<open>returned_count\<close> is the value \<open>getRunningRequests\<close>
  has just returned to a caller, as the signed number the loop test compares.
\<close>

definition balanced :: "'u pool \<Rightarrow> bool" where
  "balanced s =
     (totalRequests (manager s)
        = requestsFinished (manager s) + of_nat (length (filter running (callers s))))"

fun returned_count :: "'u pc \<Rightarrow> int option" where
  "returned_count (Counted m request_url r) = Some (sint r)"
| "returned_count c = None"

text \<open>
  Two schedules of two callers. In \<open>race\<close> the second caller runs through a whole
  request between the two loads of the first. In \<open>busy\<close> the second caller is in
  flight while the first has not started to read.
\<close>

definition race :: "action list" where
  "race =
     [Call 0 ''GET'' ''https://pypi.org/simple/pkga/'',
      Call 1 ''HEAD'' ''https://files.org/a.whl'',
      Step 0,
      Step 1, Step 1, Step 1, Step 1, Step 1, Step 1, Step 1,
      Step 0]"

definition busy :: "action list" where
  "busy =
     [Call 0 ''GET'' ''https://pypi.org/simple/pkga/'',
      Call 1 ''HEAD'' ''https://files.org/a.whl'',
      Step 1, Step 1, Step 1, Step 1, Step 1]"

subsection \<open>Pages of anchors\<close>

text \<open>
  Pages on which the anchors can be told apart. \<open>occurs p s\<close>: the string \<open>p\<close> occurs
  in \<open>s\<close>. A page is a lead followed by pieces; a piece is an anchor
  \<^verbatim>\<open><a href="h">t</a>\<close> followed by a separator. A piece is plain when \<open>h\<close> has no
  double quote, \<open>t\<close> has no angle bracket, and the separator has a line feed in it and
  neither the opening \<^verbatim>\<open><a href="\<close> nor the closing \<^verbatim>\<open></a>\<close>.
\<close>

fun occurs :: "string \<Rightarrow> string \<Rightarrow> bool" where
  "occurs p [] = (p = [])"
| "occurs p (c # cs) = (strip_prefix p (c # cs) \<noteq> None \<or> occurs p cs)"

fun piece :: "string \<times> string \<times> string \<Rightarrow> string" where
  "piece (h, t, sep) = anchor_html h t @ sep"

fun tag :: "string \<times> string \<times> string \<Rightarrow> AnchorTag" where
  "tag (h, t, sep) = \<lparr>href = h, text' = t\<rparr>"

fun plain :: "string \<times> string \<times> string \<Rightarrow> bool" where
  "plain (h, t, sep) =
     (dquote \<notin> set h \<and> CHR ''<'' \<notin> set t \<and> CHR ''>'' \<notin> set t
      \<and> \<not> occurs anchor_open sep \<and> \<not> occurs ''</a>'' sep \<and> newline \<in> set sep)"

definition page :: "string \<Rightarrow> (string \<times> string \<times> string) list \<Rightarrow> string" where
  "page lead items = lead @ concat (map piece items)"

text \<open>A page of two plain pieces, and a page with two anchors on one line.\<close>

definition demo_lead :: string where
  "demo_lead = ''<body>'' @ [newline] @ ''  ''"

definition demo_items :: "(string \<times> string \<times> string) list" where
  "demo_items =
     [(''/simple/pkga/'', ''pkgA'', ''<br/>'' @ [newline] @ ''  ''),
      (''/simple/pkgb/'', ''pkgB'', ''<br/>'' @ [newline] @ ''</body>'')]"

definition one_line :: string where
  "one_line = anchor_html ''/simple/pkga/'' ''pkgA'' @ anchor_html ''/simple/pkgb/'' ''pkgB''"

subsection \<open>Counting the calls\<close>

text \<open>
  What a caller has still to add to the counters before its call returns: a call whose
  URL parses adds one to \<open>totalRequests\<close> and one to \<open>requestsFinished\<close>, a call whose
  URL does not parse adds nothing. \<open>outside\<close>: the caller is not inside \<open>Request\<close>.
  \<open>accepted\<close> counts, along a schedule, the calls that were made with a URL that
  parses. \<open>due_issue\<close> and \<open>due_finish\<close> are the counters with what the callers still
  owe added.
\<close>

definition parses :: "'u env \<Rightarrow> string \<Rightarrow> nat" where
  "parses e request_url = (case url_Parse e request_url of Inl err \<Rightarrow> 0 | Inr u \<Rightarrow> 1)"

fun owes_issue :: "'u env \<Rightarrow> 'u pc \<Rightarrow> nat" where
  "owes_issue e (Spinning m request_url) = parses e request_url"
| "owes_issue e (LoadedTotal m request_url t) = parses e request_url"
| "owes_issue e (Counted m request_url r) = parses e request_url"
| "owes_issue e (Parsing m request_url) = parses e request_url"
| "owes_issue e (Issuing m u) = 1"
| "owes_issue e c = 0"

fun owes_finish :: "'u env \<Rightarrow> 'u pc \<Rightarrow> nat" where
  "owes_finish e (Spinning m request_url) = parses e request_url"
| "owes_finish e (LoadedTotal m request_url t) = parses e request_url"
| "owes_finish e (Counted m request_url r) = parses e request_url"
| "owes_finish e (Parsing m request_url) = parses e request_url"
| "owes_finish e (Issuing m u) = 1"
| "owes_finish e (InFlight m u) = 1"
| "owes_finish e (Completing result) = 1"
| "owes_finish e c = 0"

fun outside :: "'u pc \<Rightarrow> bool" where
  "outside Idle = True"
| "outside (Returned result) = True"
| "outside c = False"

fun accepted :: "'u env \<Rightarrow> action list \<Rightarrow> 'u pool \<Rightarrow> nat" where
  "accepted e [] s = 0"
| "accepted e (Step i # as) s = accepted e as (act e (Step i) s)"
| "accepted e (Call i m request_url # as) s =
     (if i < length (callers s) \<and> outside (callers s ! i) then parses e request_url else 0)
       + accepted e as (act e (Call i m request_url) s)"

definition due_issue :: "'u env \<Rightarrow> 'u pool \<Rightarrow> 64 word" where
  "due_issue e s =
     totalRequests (manager s) + of_nat (sum_list (map (owes_issue e) (callers s)))"

definition due_finish :: "'u env \<Rightarrow> 'u pool \<Rightarrow> 64 word" where
  "due_finish e s =
     requestsFinished (manager s) + of_nat (sum_list (map (owes_finish e) (callers s)))"

text \<open>
  A schedule of two callers under a ceiling of 1: the second caller is in flight when
  the first reads the count, so the first sleeps; the second completes; the first
  reads again, goes through and completes; then it makes one more call, with a URL
  that does not parse.
\<close>

definition waiting :: "action list" where
  "waiting =
     [Call 1 ''HEAD'' ''https://files.org/a.whl'',
      Step 1, Step 1, Step 1, Step 1, Step 1,
      Call 0 ''GET'' ''https://pypi.org/simple/pkga/'',
      Step 0, Step 0, Step 0,
      Step 1, Step 1,
      Step 0, Step 0, Step 0, Step 0, Step 0, Step 0, Step 0,
      Call 0 ''HEAD'' '':bad'',
      Step 0, Step 0, Step 0, Step 0]"

text \<open>The start of a probe when the byte counter stands at 1024.\<close>

definition proc1024 :: "string proc" where
  "proc1024 = proc0\<lparr>totalSizeBytes := 1024\<rparr>"

section \<open>Properties\<close>

subsection \<open>The wait loop\<close>

lemma spin_open:
  "sint (getRunningRequests client) < sint (maxConcurrentRequests client)
     \<Longrightarrow> spin client = Some ()"
  by (subst spin.simps) simp

lemma spin_Some_open:
  "spin client = Some y
     \<Longrightarrow> sint (getRunningRequests client) < sint (maxConcurrentRequests client)"
  by (rule spin.raw_induct
        [where P = "\<lambda>c y. sint (getRunningRequests c) < sint (maxConcurrentRequests c)"])
     (auto split: if_splits)

lemma spin_closed:
  "sint (maxConcurrentRequests client) \<le> sint (getRunningRequests client)
     \<Longrightarrow> spin client = None"
  using spin_Some_open [of client] by (cases "spin client") auto

lemma Request_open:
  assumes "sint (getRunningRequests (manager w)) < sint (maxConcurrentRequests (manager w))"
  shows "Request e method request_url w =
     (case url_Parse e request_url of
        Inl err \<Rightarrow> Some (Inl err, w)
      | Inr u \<Rightarrow>
          Some (client_Do e (wire w) method u,
                w\<lparr>manager := (manager w)\<lparr>totalRequests := totalRequests (manager w) + 1,
                                          requestsFinished := requestsFinished (manager w) + 1\<rparr>,
                  wire := wire w @ [(method, u)]\<rparr>))"
  using spin_open [OF assms] by (simp add: Request_def Let_def split: sum.splits)

lemma Request_closed:
  "sint (maxConcurrentRequests (manager w)) \<le> sint (getRunningRequests (manager w))
     \<Longrightarrow> Request e method request_url w = None"
  by (simp add: Request_def spin_closed)

lemma world0_open:
  "sint (getRunningRequests (manager world0)) < sint (maxConcurrentRequests (manager world0))"
  by (simp add: world0_def newRequestManager_def getRunningRequests_def)

subsection \<open>The size probe\<close>

text \<open>
  C10. When the HEAD request of \<open>getSizeBytes\<close> fails, be it at the URL or on the
  network, \<open>getSizeBytes\<close> returns the size 0 with the error; and whenever
  \<open>getSizeBytes\<close> returns an error, the size that comes with it is 0.
\<close>

theorem getSizeBytes_error_zero:
  "(Head e (Distribution.url dist) w = Some (Inl err, w')
      \<longrightarrow> getSizeBytes e dist w = Some ((0, Some err), w'))
   \<and> (getSizeBytes e dist w = Some ((sz, Some err), w') \<longrightarrow> sz = 0)"
  by (auto simp: getSizeBytes_def split: option.splits sum.splits)

theorem getSizeBytes_error_zero_witness:
  "Head (demo_env demo_index 1024 2048) ''https://files.org/gone.whl'' world0
     = Some (Inl (NetError ''no such host''),
             world0\<lparr>manager := newRequestManager\<lparr>totalRequests := 1, requestsFinished := 1\<rparr>,
                    wire := [(''HEAD'', ''https://files.org/gone.whl'')]\<rparr>)
   \<and> getSizeBytes (demo_env demo_index 1024 2048)
        \<lparr>pkg = None, name = ''gone.whl'', url = ''https://files.org/gone.whl''\<rparr> world0
     = Some ((0, Some (NetError ''no such host'')),
             world0\<lparr>manager := newRequestManager\<lparr>totalRequests := 1, requestsFinished := 1\<rparr>,
                    wire := [(''HEAD'', ''https://files.org/gone.whl'')]\<rparr>)"
proof -
  let ?e = "demo_env demo_index 1024 2048"
  let ?d = "\<lparr>pkg = None, name = ''gone.whl'', url = ''https://files.org/gone.whl''\<rparr>"
  have h: "Head ?e (Distribution.url ?d) world0
     = Some (Inl (NetError ''no such host''),
             world0\<lparr>manager := newRequestManager\<lparr>totalRequests := 1, requestsFinished := 1\<rparr>,
                    wire := [(''HEAD'', ''https://files.org/gone.whl'')]\<rparr>)"
    unfolding Head_def Request_open [OF world0_open]
    by (simp add: demo_env_def demo_Parse_def demo_Do_def world0_def newRequestManager_def)
  from getSizeBytes_error_zero [of ?e ?d world0] h show ?thesis by simp
qed

lemma Request_proc:
  fixes st :: "'u proc"
  assumes "Request e m request_url st = Some (r, st')"
  shows "packagesScraped st' = packagesScraped st \<and> distributionsFound st' = distributionsFound st
       \<and> totalSizeBytes st' = totalSizeBytes st \<and> writer st' = writer st"
  using assms by (auto simp: Request_def Let_def split: option.splits sum.splits)

lemma getSizeBytes_proc:
  fixes st :: "'u proc"
  assumes "getSizeBytes e d st = Some (r, st')"
  shows "packagesScraped st' = packagesScraped st \<and> distributionsFound st' = distributionsFound st
       \<and> totalSizeBytes st' = totalSizeBytes st \<and> writer st' = writer st"
  using assms Request_proc [of e "''HEAD''" "Distribution.url d" st]
  by (auto simp: getSizeBytes_def Head_def split: option.splits sum.splits prod.splits)

lemma getSizeBytes_open:
  assumes "sint (getRunningRequests (manager w)) < sint (maxConcurrentRequests (manager w))"
  shows "\<exists>r w'. getSizeBytes e d w = Some (r, w')"
  by (auto simp: getSizeBytes_def Head_def Request_open [OF assms] split: sum.splits)

lemma proc0_open:
  "sint (getRunningRequests (manager proc0)) < sint (maxConcurrentRequests (manager proc0))"
  by (simp add: proc0_def newRequestManager_def getRunningRequests_def)

lemma probe_demo_unknown:
  "probe (demo_env demo_index (- 1) 2048) pkgA distA proc0 =
     Some (None,
       proc0\<lparr>manager := newRequestManager\<lparr>totalRequests := 1, requestsFinished := 1\<rparr>,
             wire := [(''HEAD'', ''https://files.org/a.whl'')],
             distributionsFound := 1,
             totalSizeBytes := - 1,
             writer := \<lparr>buf = ''pkgA,a.whl,-1\<newline>'', csv_file = []\<rparr>\<rparr>)"
  by code_simp

lemma probe_demo_gone:
  "probe (demo_env demo_index (- 1) 2048) pkgA distGone proc0 =
     Some (Some (NetError ''no such host''),
       proc0\<lparr>manager := newRequestManager\<lparr>totalRequests := 1, requestsFinished := 1\<rparr>,
             wire := [(''HEAD'', ''https://files.org/gone.whl'')],
             distributionsFound := 1\<rparr>)"
  by code_simp

lemma getSizeBytes_demo_unknown:
  "getSizeBytes (demo_env demo_index (- 1) 2048) distA
     (proc0\<lparr>distributionsFound := distributionsFound proc0 + 1\<rparr>) =
     Some ((- 1, None),
       proc0\<lparr>manager := newRequestManager\<lparr>totalRequests := 1, requestsFinished := 1\<rparr>,
             wire := [(''HEAD'', ''https://files.org/a.whl'')],
             distributionsFound := 1\<rparr>)"
  by code_simp

lemma getSizeBytes_demo_gone:
  "getSizeBytes (demo_env demo_index (- 1) 2048) distGone
     (proc0\<lparr>distributionsFound := distributionsFound proc0 + 1\<rparr>) =
     Some ((0, Some (NetError ''no such host'')),
       proc0\<lparr>manager := newRequestManager\<lparr>totalRequests := 1, requestsFinished := 1\<rparr>,
             wire := [(''HEAD'', ''https://files.org/gone.whl'')],
             distributionsFound := 1\<rparr>)"
  by code_simp

subsection \<open>The byte counter\<close>

lemma uint_negative: "sint (sz :: 64 word) < 0 \<Longrightarrow> uint sz = 2 ^ 64 + sint sz"
proof -
  assume n: "sint sz < 0"
  have lo: "- (2 ^ 63) \<le> sint sz" using sint_ge [of sz] by simp
  have "uint sz = sint sz mod 2 ^ 64" by (simp add: uint_sint take_bit_eq_mod)
  also have "\<dots> = (sint sz + 2 ^ 64) mod 2 ^ 64" by simp
  also have "\<dots> = sint sz + 2 ^ 64" using n lo by (intro mod_pos_pos_trivial) auto
  finally show ?thesis by simp
qed

lemma int_wrap:
  fixes a s :: int
  assumes "0 \<le> a" and "a < 2 ^ 64" and "- (2 ^ 63) \<le> s" and "s < 0"
  shows "a < - s \<Longrightarrow> (a + 2 ^ 64 + s) mod 2 ^ 64 = a + 2 ^ 64 + s"
    and "- s \<le> a \<Longrightarrow> (a + 2 ^ 64 + s) mod 2 ^ 64 = a + s"
proof -
  show "(a + 2 ^ 64 + s) mod 2 ^ 64 = a + 2 ^ 64 + s" if "a < - s"
    using assms that by (intro mod_pos_pos_trivial) auto
  show "(a + 2 ^ 64 + s) mod 2 ^ 64 = a + s" if "- s \<le> a"
  proof -
    have "a + 2 ^ 64 + s = a + s + 2 ^ 64" by (simp only: add.assoc add.commute [of "2 ^ 64" s])
    then have "(a + 2 ^ 64 + s) mod 2 ^ 64 = (a + s + 2 ^ 64) mod 2 ^ 64" by (rule arg_cong)
    also have "\<dots> = (a + s) mod 2 ^ 64" by (rule mod_add_self2)
    also have "\<dots> = a + s"
      using assms that by (intro mod_pos_pos_trivial) auto
    finally show ?thesis .
  qed
qed

lemma uint_add_negative:
  fixes t sz :: "64 word"
  assumes "sint sz < 0"
  shows "uint (t + sz) = (uint t + 2 ^ 64 + sint sz) mod 2 ^ 64"
    and "uint t < - sint sz \<Longrightarrow> uint (t + sz) = uint t + 2 ^ 64 + sint sz"
    and "- sint sz \<le> uint t \<Longrightarrow> uint (t + sz) = uint t + sint sz"
proof -
  have lo: "- (2 ^ 63) \<le> sint sz" using sint_ge [of sz] by simp
  have t0: "0 \<le> uint t" by simp
  have t1: "uint t < 2 ^ 64" using uint_lt2p [of t] by simp
  have "uint (t + sz) = (uint t + uint sz) mod 2 ^ 64"
    by (simp add: uint_word_ariths)
  then show m: "uint (t + sz) = (uint t + 2 ^ 64 + sint sz) mod 2 ^ 64"
    using uint_negative [OF assms] by (simp add: add.assoc)
  show "uint (t + sz) = uint t + 2 ^ 64 + sint sz" if "uint t < - sint sz"
    using int_wrap(1) [OF t0 t1 lo assms that] m by simp
  show "uint (t + sz) = uint t + sint sz" if "- sint sz \<le> uint t"
    using int_wrap(2) [OF t0 t1 lo assms that] m by simp
qed

text \<open>
  C9, as the program has it. One turn of the probe loop adds the size that
  \<open>getSizeBytes\<close> returned, as an unsigned 64-bit number, to \<open>totalSizeBytes\<close>, whether
  the probe failed or not: the addition comes before the test of the error. After a
  failed probe the size is 0 and the counter is what it was. After a successful probe
  with a negative size \<open>s\<close> the counter is the old counter plus \<open>2 ^ 64 + s\<close> modulo
  \<open>2 ^ 64\<close>: it is higher by \<open>2 ^ 64 + s\<close> when the old counter was below \<open>- s\<close>, and
  it has wrapped around and is lower by \<open>- s\<close> when the old counter was \<open>- s\<close> or more.
  A turn that starts where the count read by \<open>Request\<close> is below the ceiling returns.
\<close>

theorem totalSizeBytes_adds_cast:
  fixes st :: "'u proc"
  shows "(probe e p d st = Some (err, st') \<longrightarrow>
     (\<exists>sz w.
        getSizeBytes e d (st\<lparr>distributionsFound := distributionsFound st + 1\<rparr>)
          = Some ((sz, err), w)
        \<and> totalSizeBytes st' = totalSizeBytes st + sz
        \<and> (err \<noteq> None \<longrightarrow> sz = 0 \<and> totalSizeBytes st' = totalSizeBytes st)
        \<and> (err = None \<and> sint sz < 0 \<longrightarrow>
              uint (totalSizeBytes st' - totalSizeBytes st) = 2 ^ 64 + sint sz
            \<and> uint (totalSizeBytes st')
                = (uint (totalSizeBytes st) + 2 ^ 64 + sint sz) mod 2 ^ 64
            \<and> (uint (totalSizeBytes st) < - sint sz \<longrightarrow>
                 uint (totalSizeBytes st') = uint (totalSizeBytes st) + 2 ^ 64 + sint sz)
            \<and> (- sint sz \<le> uint (totalSizeBytes st) \<longrightarrow>
                 uint (totalSizeBytes st') = uint (totalSizeBytes st) + sint sz))))
   \<and> (sint (getRunningRequests (manager st)) < sint (maxConcurrentRequests (manager st)) \<longrightarrow>
        (\<exists>err st'. probe e p d st = Some (err, st')))"
proof -
  let ?st1 = "st\<lparr>distributionsFound := distributionsFound st + 1\<rparr>"
  have a: "\<exists>sz w.
        getSizeBytes e d ?st1 = Some ((sz, err), w)
        \<and> totalSizeBytes st' = totalSizeBytes st + sz
        \<and> (err \<noteq> None \<longrightarrow> sz = 0 \<and> totalSizeBytes st' = totalSizeBytes st)
        \<and> (err = None \<and> sint sz < 0 \<longrightarrow>
              uint (totalSizeBytes st' - totalSizeBytes st) = 2 ^ 64 + sint sz
            \<and> uint (totalSizeBytes st')
                = (uint (totalSizeBytes st) + 2 ^ 64 + sint sz) mod 2 ^ 64
            \<and> (uint (totalSizeBytes st) < - sint sz \<longrightarrow>
                 uint (totalSizeBytes st') = uint (totalSizeBytes st) + 2 ^ 64 + sint sz)
            \<and> (- sint sz \<le> uint (totalSizeBytes st) \<longrightarrow>
                 uint (totalSizeBytes st') = uint (totalSizeBytes st) + sint sz))"
    if pr: "probe e p d st = Some (err, st')"
  proof -
    from pr obtain sz w where g: "getSizeBytes e d ?st1 = Some ((sz, err), w)"
      by (auto simp: probe_def Let_def split: option.splits prod.splits)
    from getSizeBytes_proc [OF g] have t: "totalSizeBytes w = totalSizeBytes st" by simp
    have z: "err \<noteq> None \<Longrightarrow> sz = 0"
      using g by (auto simp: getSizeBytes_def split: option.splits sum.splits)
    from pr g t have s: "totalSizeBytes st' = totalSizeBytes st + sz"
      by (cases err) (auto simp: probe_def Let_def)
    from s z have e0: "err \<noteq> None \<longrightarrow> sz = 0 \<and> totalSizeBytes st' = totalSizeBytes st"
      by simp
    have n: "uint (totalSizeBytes st' - totalSizeBytes st) = 2 ^ 64 + sint sz
            \<and> uint (totalSizeBytes st')
                = (uint (totalSizeBytes st) + 2 ^ 64 + sint sz) mod 2 ^ 64
            \<and> (uint (totalSizeBytes st) < - sint sz \<longrightarrow>
                 uint (totalSizeBytes st') = uint (totalSizeBytes st) + 2 ^ 64 + sint sz)
            \<and> (- sint sz \<le> uint (totalSizeBytes st) \<longrightarrow>
                 uint (totalSizeBytes st') = uint (totalSizeBytes st) + sint sz)"
      if "sint sz < 0"
      using uint_add_negative [OF that, of "totalSizeBytes st"] uint_negative [OF that] s
      by simp
    from g s e0 n show ?thesis by blast
  qed
  have b: "\<exists>err st'. probe e p d st = Some (err, st')"
    if o: "sint (getRunningRequests (manager st)) < sint (maxConcurrentRequests (manager st))"
  proof -
    have "sint (getRunningRequests (manager ?st1)) < sint (maxConcurrentRequests (manager ?st1))"
      using o by simp
    from getSizeBytes_open [OF this, of e d] obtain sz err w where
      g: "getSizeBytes e d ?st1 = Some ((sz, err), w)" by auto
    then show ?thesis by (cases err) (simp_all add: probe_def Let_def)
  qed
  from a b show ?thesis by blast
qed

lemma proc1024_open:
  "sint (getRunningRequests (manager proc1024)) < sint (maxConcurrentRequests (manager proc1024))"
  by (simp add: proc1024_def proc0_def newRequestManager_def getRunningRequests_def)

lemma probe_demo_1024:
  "probe (demo_env demo_index (- 1) 2048) pkgA distA proc1024 =
     Some (None,
       proc1024\<lparr>manager := newRequestManager\<lparr>totalRequests := 1, requestsFinished := 1\<rparr>,
             wire := [(''HEAD'', ''https://files.org/a.whl'')],
             distributionsFound := 1,
             totalSizeBytes := 1023,
             writer := \<lparr>buf = ''pkgA,a.whl,-1\<newline>'', csv_file = []\<rparr>\<rparr>)"
  by code_simp

lemma getSizeBytes_demo_1024:
  "getSizeBytes (demo_env demo_index (- 1) 2048) distA
     (proc1024\<lparr>distributionsFound := distributionsFound proc1024 + 1\<rparr>) =
     Some ((- 1, None),
       proc1024\<lparr>manager := newRequestManager\<lparr>totalRequests := 1, requestsFinished := 1\<rparr>,
             wire := [(''HEAD'', ''https://files.org/a.whl'')],
             distributionsFound := 1\<rparr>)"
  by code_simp

theorem totalSizeBytes_adds_cast_witness:
  "sint (getRunningRequests (manager proc0)) < sint (maxConcurrentRequests (manager proc0))
   \<and> (\<exists>st'. probe (demo_env demo_index (- 1) 2048) pkgA distA proc0 = Some (None, st')
          \<and> sint (- 1 :: 64 word) < 0
          \<and> uint (totalSizeBytes proc0) < - sint (- 1 :: 64 word)
          \<and> uint (totalSizeBytes st') = uint (totalSizeBytes proc0) + 2 ^ 64 + sint (- 1 :: 64 word))
   \<and> (\<exists>st'. probe (demo_env demo_index (- 1) 2048) pkgA distA proc1024 = Some (None, st')
          \<and> - sint (- 1 :: 64 word) \<le> uint (totalSizeBytes proc1024)
          \<and> uint (totalSizeBytes st') = uint (totalSizeBytes proc1024) + sint (- 1 :: 64 word)
          \<and> uint (totalSizeBytes st' - totalSizeBytes proc1024) = 2 ^ 64 + sint (- 1 :: 64 word))
   \<and> (\<exists>st'. probe (demo_env demo_index (- 1) 2048) pkgA distGone proc0
                = Some (Some (NetError ''no such host''), st')
          \<and> totalSizeBytes st' = totalSizeBytes proc0)"
proof -
  let ?e = "demo_env demo_index (- 1) 2048"
  have n: "sint (- 1 :: 64 word) < 0" by simp
  have lo: "uint (totalSizeBytes proc0) < - sint (- 1 :: 64 word)"
    by (simp add: proc0_def)
  have hi: "- sint (- 1 :: 64 word) \<le> uint (totalSizeBytes proc1024)"
    by (simp add: proc1024_def)
  from totalSizeBytes_adds_cast [of ?e pkgA distA proc0] proc0_open
  obtain err st' where pa: "probe ?e pkgA distA proc0 = Some (err, st')" by blast
  from totalSizeBytes_adds_cast [of ?e pkgA distA proc0 err st'] pa
  obtain sz w where
    a: "getSizeBytes ?e distA (proc0\<lparr>distributionsFound := distributionsFound proc0 + 1\<rparr>)
          = Some ((sz, err), w)"
       "err = None \<and> sint sz < 0 \<longrightarrow>
          (uint (totalSizeBytes proc0) < - sint sz \<longrightarrow>
             uint (totalSizeBytes st') = uint (totalSizeBytes proc0) + 2 ^ 64 + sint sz)"
    by blast
  from a(1) have a': "sz = - 1" "err = None" by (simp_all add: getSizeBytes_demo_unknown)
  from a(2) a' n lo pa have A: "\<exists>st'. probe ?e pkgA distA proc0 = Some (None, st')
          \<and> sint (- 1 :: 64 word) < 0
          \<and> uint (totalSizeBytes proc0) < - sint (- 1 :: 64 word)
          \<and> uint (totalSizeBytes st') = uint (totalSizeBytes proc0) + 2 ^ 64 + sint (- 1 :: 64 word)"
    by blast
  from totalSizeBytes_adds_cast [of ?e pkgA distA proc1024] proc1024_open
  obtain err1 st1 where pb: "probe ?e pkgA distA proc1024 = Some (err1, st1)" by blast
  from totalSizeBytes_adds_cast [of ?e pkgA distA proc1024 err1 st1] pb
  obtain sz1 w1 where
    b: "getSizeBytes ?e distA (proc1024\<lparr>distributionsFound := distributionsFound proc1024 + 1\<rparr>)
          = Some ((sz1, err1), w1)"
       "err1 = None \<and> sint sz1 < 0 \<longrightarrow>
          uint (totalSizeBytes st1 - totalSizeBytes proc1024) = 2 ^ 64 + sint sz1
          \<and> (- sint sz1 \<le> uint (totalSizeBytes proc1024) \<longrightarrow>
             uint (totalSizeBytes st1) = uint (totalSizeBytes proc1024) + sint sz1)"
    by blast
  from b(1) have b': "sz1 = - 1" "err1 = None" by (simp_all add: getSizeBytes_demo_1024)
  from b(2) b' n hi pb have B: "\<exists>st'. probe ?e pkgA distA proc1024 = Some (None, st')
          \<and> - sint (- 1 :: 64 word) \<le> uint (totalSizeBytes proc1024)
          \<and> uint (totalSizeBytes st') = uint (totalSizeBytes proc1024) + sint (- 1 :: 64 word)
          \<and> uint (totalSizeBytes st' - totalSizeBytes proc1024) = 2 ^ 64 + sint (- 1 :: 64 word)"
    by blast
  from totalSizeBytes_adds_cast [of ?e pkgA distGone proc0] proc0_open
  obtain err2 st2 where pc: "probe ?e pkgA distGone proc0 = Some (err2, st2)" by blast
  from totalSizeBytes_adds_cast [of ?e pkgA distGone proc0 err2 st2] pc
  obtain sz2 w2 where
    c: "getSizeBytes ?e distGone (proc0\<lparr>distributionsFound := distributionsFound proc0 + 1\<rparr>)
          = Some ((sz2, err2), w2)"
       "err2 \<noteq> None \<longrightarrow> sz2 = 0 \<and> totalSizeBytes st2 = totalSizeBytes proc0"
    by blast
  from c(1) have c': "err2 = Some (NetError ''no such host'')"
    by (simp add: getSizeBytes_demo_gone)
  from c(2) c' pc have C: "\<exists>st'. probe ?e pkgA distGone proc0
                = Some (Some (NetError ''no such host''), st')
          \<and> totalSizeBytes st' = totalSizeBytes proc0"
    by blast
  from proc0_open A B C show ?thesis by (intro conjI)
qed

text \<open>
  A successful probe that returns \<open>-1\<close> while the counter stands at 1024: the counter
  goes down to 1023.
\<close>

theorem counter_goes_down:
  "probe (demo_env demo_index (- 1) 2048) pkgA distA proc1024 =
     Some (None,
       proc1024\<lparr>manager := newRequestManager\<lparr>totalRequests := 1, requestsFinished := 1\<rparr>,
             wire := [(''HEAD'', ''https://files.org/a.whl'')],
             distributionsFound := 1,
             totalSizeBytes := 1023,
             writer := \<lparr>buf = ''pkgA,a.whl,-1\<newline>'', csv_file = []\<rparr>\<rparr>)
   \<and> totalSizeBytes proc1024 = 1024
   \<and> uint (1023 :: 64 word) < uint (1024 :: 64 word)"
proof -
  have "totalSizeBytes proc1024 = 1024" by (simp add: proc1024_def)
  moreover have "uint (1023 :: 64 word) < uint (1024 :: 64 word)" by simp
  ultimately show ?thesis using probe_demo_1024 by (intro conjI)
qed

subsection \<open>The rows of the output\<close>

lemma digits_set: "set (digits n) \<subseteq> set ''0123456789''"
proof (induction n rule: digits.induct)
  case (1 n)
  have m: "''0123456789'' ! k \<in> set ''0123456789''" if "k < 10" for k
    using that by (intro nth_mem) simp
  show ?case
  proof (cases "n < 10")
    case True
    then show ?thesis using m [of n] by (subst digits.simps) simp
  next
    case False
    then show ?thesis using 1 m [of "n mod 10"] by (subst digits.simps) simp
  qed
qed

lemma Sprintf_d_nonneg: "0 \<le> sint sz \<Longrightarrow> set (Sprintf_d sz) \<subseteq> set ''0123456789''"
  using digits_set by (simp add: Sprintf_d_def)

lemma Sprintf_d_neg: "sint sz < 0 \<Longrightarrow> hd (Sprintf_d sz) = CHR ''-''"
  by (simp add: Sprintf_d_def)

text \<open>
  C8, as the program has it. A turn of the probe loop whose probe fails writes no row
  and ends the loop with the error, on which the goroutine panics. A turn whose probe
  succeeds writes one row, and the size field of the row is the decimal form of the
  content length of the response: digits only when the length is not negative, and
  with a minus sign when it is negative, as it is when the length is unknown.
\<close>

theorem probe_row:
  fixes st :: "'u proc"
  assumes "probe e p d st = Some (err, st')"
  shows "(\<forall>er. err = Some er \<longrightarrow>
            writer st' = writer st \<and> probes e p (d # rest) st = Some (Some er, st'))
       \<and> (err = None \<longrightarrow>
            (\<exists>response w.
               Head e (Distribution.url d) (st\<lparr>distributionsFound := distributionsFound st + 1\<rparr>)
                 = Some (Inr response, w)
               \<and> writer st' =
                   csv_Write e [Package.name p, Distribution.name d,
                                Sprintf_d (ContentLength response)] (writer st)
               \<and> (0 \<le> sint (ContentLength response) \<longrightarrow>
                     set (Sprintf_d (ContentLength response)) \<subseteq> set ''0123456789'')
               \<and> (sint (ContentLength response) < 0 \<longrightarrow>
                     hd (Sprintf_d (ContentLength response)) = CHR ''-'')))"
proof -
  let ?st1 = "st\<lparr>distributionsFound := distributionsFound st + 1\<rparr>"
  from assms obtain sz w where g: "getSizeBytes e d ?st1 = Some ((sz, err), w)"
    by (auto simp: probe_def Let_def split: option.splits prod.splits)
  from getSizeBytes_proc [OF g] have wr: "writer w = writer st" by simp
  show ?thesis
  proof (cases err)
    case None
    from g None obtain response where
      h: "Head e (Distribution.url d) ?st1 = Some (Inr response, w)" and
      sz: "sz = ContentLength response"
      by (auto simp: getSizeBytes_def split: option.splits sum.splits)
    from assms g None wr sz have
      "writer st' = csv_Write e [Package.name p, Distribution.name d,
                                 Sprintf_d (ContentLength response)] (writer st)"
      by (auto simp: probe_def Let_def)
    with h None show ?thesis
      using Sprintf_d_nonneg [of "ContentLength response"]
            Sprintf_d_neg [of "ContentLength response"]
      by auto
  next
    case (Some er)
    with assms g wr show ?thesis
      by (auto simp: probe_def Let_def)
  qed
qed

lemma probe_demo_known:
  "probe (demo_env demo_index 1024 2048) pkgA distA proc0 =
     Some (None,
       proc0\<lparr>manager := newRequestManager\<lparr>totalRequests := 1, requestsFinished := 1\<rparr>,
             wire := [(''HEAD'', ''https://files.org/a.whl'')],
             distributionsFound := 1,
             totalSizeBytes := 1024,
             writer := \<lparr>buf = ''pkgA,a.whl,1024\<newline>'', csv_file = []\<rparr>\<rparr>)"
  by code_simp

lemma Head_demo_unknown:
  "Head (demo_env demo_index (- 1) 2048) (Distribution.url distA)
     (proc0\<lparr>distributionsFound := distributionsFound proc0 + 1\<rparr>) =
     Some (Inr (demo_response ''https://files.org/a.whl'' [] (- 1)),
       proc0\<lparr>manager := newRequestManager\<lparr>totalRequests := 1, requestsFinished := 1\<rparr>,
             wire := [(''HEAD'', ''https://files.org/a.whl'')],
             distributionsFound := 1\<rparr>)"
  by code_simp

lemma Head_demo_known:
  "Head (demo_env demo_index 1024 2048) (Distribution.url distA)
     (proc0\<lparr>distributionsFound := distributionsFound proc0 + 1\<rparr>) =
     Some (Inr (demo_response ''https://files.org/a.whl'' [] 1024),
       proc0\<lparr>manager := newRequestManager\<lparr>totalRequests := 1, requestsFinished := 1\<rparr>,
             wire := [(''HEAD'', ''https://files.org/a.whl'')],
             distributionsFound := 1\<rparr>)"
  by code_simp

theorem probe_row_witness:
  "probe (demo_env demo_index (- 1) 2048) pkgA distA proc0 =
     Some (None,
       proc0\<lparr>manager := newRequestManager\<lparr>totalRequests := 1, requestsFinished := 1\<rparr>,
             wire := [(''HEAD'', ''https://files.org/a.whl'')],
             distributionsFound := 1,
             totalSizeBytes := - 1,
             writer := \<lparr>buf = ''pkgA,a.whl,-1\<newline>'', csv_file = []\<rparr>\<rparr>)
   \<and> \<lparr>buf = ''pkgA,a.whl,-1\<newline>'', csv_file = []\<rparr> =
       csv_Write (demo_env demo_index (- 1) 2048)
         [''pkgA'', ''a.whl'', Sprintf_d (- 1)] (writer proc0)
   \<and> sint (- 1 :: 64 word) < 0 \<and> hd (Sprintf_d (- 1)) = CHR ''-''
   \<and> probe (demo_env demo_index 1024 2048) pkgA distA proc0 =
     Some (None,
       proc0\<lparr>manager := newRequestManager\<lparr>totalRequests := 1, requestsFinished := 1\<rparr>,
             wire := [(''HEAD'', ''https://files.org/a.whl'')],
             distributionsFound := 1,
             totalSizeBytes := 1024,
             writer := \<lparr>buf = ''pkgA,a.whl,1024\<newline>'', csv_file = []\<rparr>\<rparr>)
   \<and> 0 \<le> sint (1024 :: 64 word) \<and> set (Sprintf_d 1024) \<subseteq> set ''0123456789''
   \<and> probe (demo_env demo_index (- 1) 2048) pkgA distGone proc0 =
     Some (Some (NetError ''no such host''),
       proc0\<lparr>manager := newRequestManager\<lparr>totalRequests := 1, requestsFinished := 1\<rparr>,
             wire := [(''HEAD'', ''https://files.org/gone.whl'')],
             distributionsFound := 1\<rparr>)
   \<and> probes (demo_env demo_index (- 1) 2048) pkgA [distGone, distA] proc0 =
     Some (Some (NetError ''no such host''),
       proc0\<lparr>manager := newRequestManager\<lparr>totalRequests := 1, requestsFinished := 1\<rparr>,
             wire := [(''HEAD'', ''https://files.org/gone.whl'')],
             distributionsFound := 1\<rparr>)"
proof -
  have n: "sint (- 1 :: 64 word) < 0" and k: "0 \<le> sint (1024 :: 64 word)"
    by simp_all
  from probe_row [OF probe_demo_unknown, of "[]"] obtain response w where
    a: "Head (demo_env demo_index (- 1) 2048) (Distribution.url distA)
          (proc0\<lparr>distributionsFound := distributionsFound proc0 + 1\<rparr>) = Some (Inr response, w)"
       "writer (proc0\<lparr>manager := newRequestManager\<lparr>totalRequests := 1, requestsFinished := 1\<rparr>,
             wire := [(''HEAD'', ''https://files.org/a.whl'')],
             distributionsFound := 1,
             totalSizeBytes := - 1,
             writer := \<lparr>buf = ''pkgA,a.whl,-1\<newline>'', csv_file = []\<rparr>\<rparr>) =
          csv_Write (demo_env demo_index (- 1) 2048)
            [Package.name pkgA, Distribution.name distA, Sprintf_d (ContentLength response)]
            (writer proc0)"
       "sint (ContentLength response) < 0 \<longrightarrow> hd (Sprintf_d (ContentLength response)) = CHR ''-''"
    by blast
  from a(1) have ra: "ContentLength response = - 1"
    by (auto simp: Head_demo_unknown demo_response_def)
  from probe_row [OF probe_demo_known, of "[]"] obtain response' w' where
    b: "Head (demo_env demo_index 1024 2048) (Distribution.url distA)
          (proc0\<lparr>distributionsFound := distributionsFound proc0 + 1\<rparr>) = Some (Inr response', w')"
       "0 \<le> sint (ContentLength response') \<longrightarrow>
          set (Sprintf_d (ContentLength response')) \<subseteq> set ''0123456789''"
    by blast
  from b(1) have rb: "ContentLength response' = 1024"
    by (auto simp: Head_demo_known demo_response_def)
  from probe_row [OF probe_demo_gone, of "[distA]"] have
    c: "probes (demo_env demo_index (- 1) 2048) pkgA [distGone, distA] proc0 =
     Some (Some (NetError ''no such host''),
       proc0\<lparr>manager := newRequestManager\<lparr>totalRequests := 1, requestsFinished := 1\<rparr>,
             wire := [(''HEAD'', ''https://files.org/gone.whl'')],
             distributionsFound := 1\<rparr>)"
    by blast
  from a(2) ra have a2: "\<lparr>buf = ''pkgA,a.whl,-1\<newline>'', csv_file = []\<rparr> =
       csv_Write (demo_env demo_index (- 1) 2048)
         [''pkgA'', ''a.whl'', Sprintf_d (- 1)] (writer proc0)"
    by (simp add: pkgA_def distA_def)
  from a(3) ra n have a3: "hd (Sprintf_d (- 1 :: 64 word)) = CHR ''-''" by simp
  from b(2) rb k have b2: "set (Sprintf_d (1024 :: 64 word)) \<subseteq> set ''0123456789''" by simp
  show ?thesis
    using probe_demo_unknown a2 n a3 probe_demo_known k b2 probe_demo_gone c
    by (intro conjI)
qed

text \<open>
  The registry of two packages where the HEAD request for the first distribution
  reports no content length: no probe fails, \<open>main\<close> returns, and the row of that
  distribution went to the writer with the size \<open>-1\<close>.
\<close>

theorem negative_size_row:
  "map_option report (main (demo_env demo_index (- 1) 2048)) =
     Some (True,
       ''Package,Distribution,Size\<newline>pkgA,a.whl,-1\<newline>pkgB,b.whl,2048\<newline>'')"
  by code_simp

subsection \<open>Discovery of packages and distributions\<close>

lemma take_Suc_update:
  "i < length xs \<Longrightarrow> take (Suc i) (xs[i := v]) = take i xs @ [v]"
  by (simp add: take_Suc_conv_app_nth)

lemma fillUrls_map:
  "length urls = i + length anchors \<Longrightarrow>
     fillUrls i anchors urls
       = take i urls @ map (\<lambda>a. \<lparr>href = fst a, text' = snd a\<rparr>) anchors"
proof (induction anchors arbitrary: i urls)
  case Nil
  then show ?case by simp
next
  case (Cons a anchors)
  from Cons.prems have l: "i < length urls" by simp
  have "fillUrls (i + 1) anchors (urls[i := \<lparr>href = fst a, text' = snd a\<rparr>])
      = take (i + 1) (urls[i := \<lparr>href = fst a, text' = snd a\<rparr>])
          @ map (\<lambda>a. \<lparr>href = fst a, text' = snd a\<rparr>) anchors"
    using Cons.prems by (intro Cons.IH) simp
  with l show ?case by (simp add: take_Suc_update)
qed

lemma exctractUrls_map:
  "exctractUrls body = map (\<lambda>a. \<lparr>href = fst a, text' = snd a\<rparr>) (FindAllSubmatch body)"
  by (simp add: exctractUrls_def Let_def fillUrls_map)

lemma fillDistributions_map:
  "length ds = i + length urls \<Longrightarrow>
     fillDistributions p None i urls ds
       = Inr (take i ds @ map (\<lambda>a. \<lparr>pkg = Some p, name = text' a, url = href a\<rparr>) urls)"
proof (induction urls arbitrary: i ds)
  case Nil
  then show ?case by simp
next
  case (Cons a urls)
  from Cons.prems have l: "i < length ds" by simp
  let ?v = "\<lparr>pkg = Some p, name = text' a, url = href a\<rparr>"
  have "fillDistributions p None (i + 1) urls (ds[i := ?v])
      = Inr (take (i + 1) (ds[i := ?v])
          @ map (\<lambda>a. \<lparr>pkg = Some p, name = text' a, url = href a\<rparr>) urls)"
    using Cons.prems by (intro Cons.IH) simp
  with l show ?case by (simp add: take_Suc_update)
qed

lemma fillPackages_map:
  "length ps = i + length urls \<Longrightarrow>
   \<forall>a\<in>set urls. \<exists>u. url_Parse e (href a) = Inr u \<Longrightarrow>
     fillPackages e response i urls ps
       = Inr (take i ps @
              map (\<lambda>a. \<lparr>Package.name = text' a,
                         Package.url = url_String e
                           (ResolveReference e (Request_URL response)
                              (projr (url_Parse e (href a))))\<rparr>) urls)"
proof (induction urls arbitrary: i ps)
  case Nil
  then show ?case by simp
next
  case (Cons a urls)
  from Cons.prems have l: "i < length ps" by simp
  from Cons.prems obtain u where u: "url_Parse e (href a) = Inr u" by auto
  let ?v = "\<lparr>Package.name = text' a,
             Package.url = url_String e (ResolveReference e (Request_URL response) u)\<rparr>"
  have "fillPackages e response (i + 1) urls (ps[i := ?v])
      = Inr (take (i + 1) (ps[i := ?v]) @
              map (\<lambda>a. \<lparr>Package.name = text' a,
                         Package.url = url_String e
                           (ResolveReference e (Request_URL response)
                              (projr (url_Parse e (href a))))\<rparr>) urls)"
    using Cons.prems by (intro Cons.IH) simp_all
  with l u show ?case by (simp add: take_Suc_update)
qed

lemma fillPackages_error:
  "\<exists>a\<in>set urls. \<exists>err. url_Parse e (href a) = Inl err \<Longrightarrow>
     \<exists>err. fillPackages e response i urls ps = Inl err"
proof (induction urls arbitrary: i ps)
  case Nil
  then show ?case by simp
next
  case (Cons a urls)
  show ?case
  proof (cases "url_Parse e (href a)")
    case (Inl err)
    then show ?thesis by simp
  next
    case (Inr u)
    with Cons.prems have "\<exists>a\<in>set urls. \<exists>err. url_Parse e (href a) = Inl err" by auto
    from Cons.IH [OF this] Inr show ?thesis by (simp add: Let_def)
  qed
qed

text \<open>
  C6. \<open>getDistributions\<close> is the governed \<open>Get\<close> of the package URL followed by a
  map: it does not return while \<open>Get\<close> does not; it returns the error of \<open>Get\<close> when
  \<open>Get\<close> returns one, and the error of the read when reading the body fails, in both
  cases without distributions; in every other case it returns one distribution for
  every anchor of the page, in the order of the anchors, with the \<open>href\<close> of the anchor
  as it stands for URL, the text of the anchor for name, and \<open>pkg\<close> pointing to the
  package. Called where the count read by \<open>Request\<close> is below the ceiling, it returns.
\<close>

theorem getDistributions_verbatim:
  "getDistributions e p w =
     map_option
       (\<lambda>(r, w').
          (case r of
             Inl err \<Rightarrow> Inl err
           | Inr response \<Rightarrow>
               (case Body response of
                  Inl err \<Rightarrow> Inl err
                | Inr body \<Rightarrow>
                    Inr (map (\<lambda>a. \<lparr>pkg = Some p, name = text' a, url = href a\<rparr>)
                           (exctractUrls body))),
           w'))
       (Get e (Package.url p) w)
   \<and> (sint (getRunningRequests (manager w)) < sint (maxConcurrentRequests (manager w)) \<longrightarrow>
        (\<exists>r w'. getDistributions e p w = Some (r, w')))"
proof -
  have a: "getDistributions e p w =
     map_option
       (\<lambda>(r, w').
          (case r of
             Inl err \<Rightarrow> Inl err
           | Inr response \<Rightarrow>
               (case Body response of
                  Inl err \<Rightarrow> Inl err
                | Inr body \<Rightarrow>
                    Inr (map (\<lambda>a. \<lparr>pkg = Some p, name = text' a, url = href a\<rparr>)
                           (exctractUrls body))),
           w'))
       (Get e (Package.url p) w)"
    by (auto simp: getDistributions_def Let_def fillDistributions_map
          split: option.splits sum.splits)
  have "\<exists>r w'. Get e (Package.url p) w = Some (r, w')"
    if "sint (getRunningRequests (manager w)) < sint (maxConcurrentRequests (manager w))"
    by (cases "url_Parse e (Package.url p)") (simp_all add: Get_def Request_open [OF that])
  with a show ?thesis by auto
qed

text \<open>
  C5. When the index page was fetched and read, \<open>getPackages\<close> returns one package
  for every anchor of the page, in the order of the anchors, if every \<open>href\<close> parses:
  the name is the text of the anchor and the URL is the string of the \<open>href\<close> resolved
  by \<open>ResolveReference\<close> against \<open>response.Request.URL\<close>, the URL the response came
  from after redirects. If one \<open>href\<close> does not parse, it returns an error and no
  packages. In the registry of the example the relative reference \<open>pkg-a/\<close> on the
  base \<open>https://pypi.org/simple/\<close> gives \<open>https://pypi.org/simple/pkg-a/\<close>.
\<close>

theorem getPackages_resolved:
  assumes "http_Get e registry_url wr = (Inr response, wr')" and "Body response = Inr body"
  shows "((\<forall>a\<in>set (exctractUrls body). \<exists>u. url_Parse e (href a) = Inr u) \<longrightarrow>
            getPackages e registry_url wr =
              (Inr (map (\<lambda>a. \<lparr>Package.name = text' a,
                               Package.url = url_String e
                                 (ResolveReference e (Request_URL response)
                                    (projr (url_Parse e (href a))))\<rparr>)
                        (exctractUrls body)), wr'))
       \<and> ((\<exists>a\<in>set (exctractUrls body). \<exists>err. url_Parse e (href a) = Inl err) \<longrightarrow>
            (\<exists>err. getPackages e registry_url wr = (Inl err, wr')))"
  using assms fillPackages_error [of "exctractUrls body" e response 0]
  by (auto simp: getPackages_def Let_def fillPackages_map)

lemma Get_demo_pkgA:
  "Get (demo_env demo_index 1024 2048) (Package.url pkgA) world0 =
     Some (Inr (demo_response ''https://pypi.org/simple/pkga/''
                  (anchor_html ''https://files.org/a.whl'' ''a.whl'' @ [newline]) (- 1)),
           world0\<lparr>manager := newRequestManager\<lparr>totalRequests := 1, requestsFinished := 1\<rparr>,
                  wire := [(''GET'', ''https://pypi.org/simple/pkga/'')]\<rparr>)"
  by code_simp

lemma Get_demo_pkgGone:
  "Get (demo_env demo_index 1024 2048) (Package.url pkgGone) world0 =
     Some (Inl (NetError ''no such host''),
           world0\<lparr>manager := newRequestManager\<lparr>totalRequests := 1, requestsFinished := 1\<rparr>,
                  wire := [(''GET'', ''https://pypi.org/simple/gone/'')]\<rparr>)"
  by code_simp

lemma Get_demo_pkgBroken:
  "Get (demo_env demo_index 1024 2048) (Package.url pkgBroken) world0 =
     Some (Inr \<lparr>Request_URL = ''https://pypi.org/simple/broken/'',
                Body = Inl (ReadError ''unexpected EOF''), ContentLength = - 1\<rparr>,
           world0\<lparr>manager := newRequestManager\<lparr>totalRequests := 1, requestsFinished := 1\<rparr>,
                  wire := [(''GET'', ''https://pypi.org/simple/broken/'')]\<rparr>)"
  by code_simp

lemma exctractUrls_pkgA_page:
  "exctractUrls (anchor_html ''https://files.org/a.whl'' ''a.whl'' @ [newline]) =
     [\<lparr>href = ''https://files.org/a.whl'', text' = ''a.whl''\<rparr>]"
  by code_simp

theorem getDistributions_verbatim_witness:
  "sint (getRunningRequests (manager world0)) < sint (maxConcurrentRequests (manager world0))
   \<and> getDistributions (demo_env demo_index 1024 2048) pkgA world0 =
       Some (Inr [\<lparr>pkg = Some pkgA, name = ''a.whl'', url = ''https://files.org/a.whl''\<rparr>],
             world0\<lparr>manager := newRequestManager\<lparr>totalRequests := 1, requestsFinished := 1\<rparr>,
                    wire := [(''GET'', ''https://pypi.org/simple/pkga/'')]\<rparr>)
   \<and> getDistributions (demo_env demo_index 1024 2048) pkgGone world0 =
       Some (Inl (NetError ''no such host''),
             world0\<lparr>manager := newRequestManager\<lparr>totalRequests := 1, requestsFinished := 1\<rparr>,
                    wire := [(''GET'', ''https://pypi.org/simple/gone/'')]\<rparr>)
   \<and> getDistributions (demo_env demo_index 1024 2048) pkgBroken world0 =
       Some (Inl (ReadError ''unexpected EOF''),
             world0\<lparr>manager := newRequestManager\<lparr>totalRequests := 1, requestsFinished := 1\<rparr>,
                    wire := [(''GET'', ''https://pypi.org/simple/broken/'')]\<rparr>)"
proof -
  let ?e = "demo_env demo_index 1024 2048"
  from getDistributions_verbatim [of ?e pkgA world0]
  have a: "getDistributions ?e pkgA world0 =
       Some (Inr [\<lparr>pkg = Some pkgA, name = ''a.whl'', url = ''https://files.org/a.whl''\<rparr>],
             world0\<lparr>manager := newRequestManager\<lparr>totalRequests := 1, requestsFinished := 1\<rparr>,
                    wire := [(''GET'', ''https://pypi.org/simple/pkga/'')]\<rparr>)"
    by (simp add: Get_demo_pkgA demo_response_def exctractUrls_pkgA_page)
  from getDistributions_verbatim [of ?e pkgGone world0]
  have b: "getDistributions ?e pkgGone world0 =
       Some (Inl (NetError ''no such host''),
             world0\<lparr>manager := newRequestManager\<lparr>totalRequests := 1, requestsFinished := 1\<rparr>,
                    wire := [(''GET'', ''https://pypi.org/simple/gone/'')]\<rparr>)"
    by (simp add: Get_demo_pkgGone)
  from getDistributions_verbatim [of ?e pkgBroken world0]
  have c: "getDistributions ?e pkgBroken world0 =
       Some (Inl (ReadError ''unexpected EOF''),
             world0\<lparr>manager := newRequestManager\<lparr>totalRequests := 1, requestsFinished := 1\<rparr>,
                    wire := [(''GET'', ''https://pypi.org/simple/broken/'')]\<rparr>)"
    by (simp add: Get_demo_pkgBroken)
  from world0_open a b c show ?thesis by (intro conjI)
qed

lemma http_Get_demo:
  "http_Get (demo_env index lenA lenB) ''https://pypi.org/simple/'' [] =
     (Inr (demo_response ''https://pypi.org/simple/'' index (- 1)),
      [(''GET'', ''https://pypi.org/simple/'')])"
  by (simp add: http_Get_def demo_env_def demo_Parse_def demo_Do_def)

lemma exctractUrls_demo_index:
  "exctractUrls demo_index =
     [\<lparr>href = ''/simple/pkga/'', text' = ''pkgA''\<rparr>, \<lparr>href = ''/simple/pkgb/'', text' = ''pkgB''\<rparr>]"
  by code_simp

lemma exctractUrls_relative_index:
  "exctractUrls relative_index = [\<lparr>href = ''pkg-a/'', text' = ''pkg-a''\<rparr>]"
  by code_simp

lemma exctractUrls_bad_index:
  "exctractUrls bad_index =
     [\<lparr>href = ''/simple/pkga/'', text' = ''pkgA''\<rparr>, \<lparr>href = '':bad'', text' = ''pkgB''\<rparr>]"
  by code_simp

theorem getPackages_resolved_witness:
  "getPackages (demo_env demo_index 1024 2048) ''https://pypi.org/simple/'' [] =
     (Inr [\<lparr>Package.name = ''pkgA'', Package.url = ''https://pypi.org/simple/pkga/''\<rparr>,
           \<lparr>Package.name = ''pkgB'', Package.url = ''https://pypi.org/simple/pkgb/''\<rparr>],
      [(''GET'', ''https://pypi.org/simple/'')])
   \<and> getPackages (demo_env relative_index 1024 2048) ''https://pypi.org/simple/'' [] =
     (Inr [\<lparr>Package.name = ''pkg-a'', Package.url = ''https://pypi.org/simple/pkg-a/''\<rparr>],
      [(''GET'', ''https://pypi.org/simple/'')])
   \<and> getPackages (demo_env bad_index 1024 2048) ''https://pypi.org/simple/'' [] =
     (Inl (ParseError ''missing protocol scheme''), [(''GET'', ''https://pypi.org/simple/'')])"
proof -
  have b: "Body (demo_response u body len) = Inr body" for u body len
    by (simp add: demo_response_def)
  have a1: "getPackages (demo_env demo_index 1024 2048) ''https://pypi.org/simple/'' [] =
     (Inr [\<lparr>Package.name = ''pkgA'', Package.url = ''https://pypi.org/simple/pkga/''\<rparr>,
           \<lparr>Package.name = ''pkgB'', Package.url = ''https://pypi.org/simple/pkgb/''\<rparr>],
      [(''GET'', ''https://pypi.org/simple/'')])"
    using getPackages_resolved [OF http_Get_demo b, of demo_index 1024 2048]
    by (simp add: exctractUrls_demo_index demo_env_def demo_Parse_def demo_Resolve_def
          demo_response_def)
  have a2: "getPackages (demo_env relative_index 1024 2048) ''https://pypi.org/simple/'' [] =
     (Inr [\<lparr>Package.name = ''pkg-a'', Package.url = ''https://pypi.org/simple/pkg-a/''\<rparr>],
      [(''GET'', ''https://pypi.org/simple/'')])"
    using getPackages_resolved [OF http_Get_demo b, of relative_index 1024 2048]
    by (simp add: exctractUrls_relative_index demo_env_def demo_Parse_def demo_Resolve_def
          demo_response_def)
  have "\<exists>err. getPackages (demo_env bad_index 1024 2048) ''https://pypi.org/simple/'' [] =
     (Inl err, [(''GET'', ''https://pypi.org/simple/'')])"
    using getPackages_resolved [OF http_Get_demo b, of bad_index 1024 2048]
    by (simp add: exctractUrls_bad_index demo_env_def demo_Parse_def)
  moreover have "fst (getPackages (demo_env bad_index 1024 2048) ''https://pypi.org/simple/'' [])
      = Inl (ParseError ''missing protocol scheme'')"
    by code_simp
  ultimately have a3: "getPackages (demo_env bad_index 1024 2048) ''https://pypi.org/simple/'' [] =
     (Inl (ParseError ''missing protocol scheme''), [(''GET'', ''https://pypi.org/simple/'')])"
    by force
  from a1 a2 a3 show ?thesis by (intro conjI)
qed

subsection \<open>The requests of a whole run\<close>

lemma settled_open:
  "settled k w \<Longrightarrow>
     sint (getRunningRequests (manager w)) < sint (maxConcurrentRequests (manager w))"
  by (simp add: settled_def getRunningRequests_def)

lemma Request_settled:
  assumes "settled k w"
  shows "\<exists>r w'. Request e m request_url w = Some (r, w') \<and> settled k w'"
proof (cases "url_Parse e request_url")
  case (Inl err)
  with assms show ?thesis by (simp add: Request_open [OF settled_open [OF assms]])
next
  case (Inr u)
  with assms show ?thesis
    by (simp add: Request_open [OF settled_open [OF assms]] settled_def add.commute add.left_commute)
qed

lemma getSizeBytes_settled:
  assumes "settled k w"
  shows "\<exists>r w'. getSizeBytes e d w = Some (r, w') \<and> settled k w'"
  using Request_settled [OF assms, of e "''HEAD''" "Distribution.url d"]
  by (auto simp: getSizeBytes_def Head_def split: sum.splits)

lemma getDistributions_settled:
  assumes "settled k w"
  shows "\<exists>r w'. getDistributions e p w = Some (r, w') \<and> settled k w'"
  using Request_settled [OF assms, of e "''GET''" "Package.url p"]
  by (auto simp: getDistributions_def Get_def Let_def split: sum.splits)

lemma probe_settled:
  fixes st :: "'u proc"
  assumes "settled k st"
  shows "\<exists>err st'. probe e p d st = Some (err, st') \<and> settled k st'"
proof -
  let ?st1 = "st\<lparr>distributionsFound := distributionsFound st + 1\<rparr>"
  have "settled k ?st1" using assms by (simp add: settled_def)
  from getSizeBytes_settled [OF this, of e d] obtain sz err w where
    g: "getSizeBytes e d ?st1 = Some ((sz, err), w)" and s: "settled k w" by auto
  from s have s': "settled k (w\<lparr>totalSizeBytes := t\<rparr>)"
    "settled k (w\<lparr>totalSizeBytes := t, writer := x\<rparr>)" for t x
    by (simp_all add: settled_def)
  show ?thesis using g s' by (cases err) (simp_all add: probe_def Let_def)
qed

lemma probes_settled:
  fixes st :: "'u proc"
  shows "settled k st \<Longrightarrow> \<exists>err st'. probes e p ds st = Some (err, st') \<and> settled k st'"
proof (induction ds arbitrary: st)
  case Nil
  then show ?case by simp
next
  case (Cons d ds)
  from probe_settled [OF Cons.prems, of e p d] obtain err st1 where
    p: "probe e p d st = Some (err, st1)" and s: "settled k st1" by auto
  show ?case
  proof (cases err)
    case None
    with p Cons.IH [OF s] show ?thesis by simp
  next
    case (Some er)
    with p s show ?thesis by simp
  qed
qed

lemma goroutine_settled:
  fixes st :: "'u proc"
  assumes "settled k st"
  shows "\<exists>err st'. goroutine e p st = Some (err, st') \<and> settled k st'"
proof -
  from getDistributions_settled [OF assms, of e p] obtain r w where
    g: "getDistributions e p st = Some (r, w)" and s: "settled k w" by auto
  show ?thesis
  proof (cases r)
    case (Inl err)
    with g s show ?thesis by (simp add: goroutine_def)
  next
    case (Inr ds)
    with g probes_settled [OF s, of e p ds] show ?thesis by (simp add: goroutine_def)
  qed
qed

lemma crawl_settled:
  fixes st :: "'u proc"
  shows "settled k st \<Longrightarrow> \<exists>err st'. crawl e ps st = Some (err, st') \<and> settled k st'"
proof (induction ps arbitrary: st)
  case Nil
  then show ?case by simp
next
  case (Cons p ps)
  let ?st1 = "st\<lparr>packagesScraped := packagesScraped st + 1\<rparr>"
  have "settled k ?st1" using Cons.prems by (simp add: settled_def)
  from goroutine_settled [OF this, of e p] obtain err st1 where
    g: "goroutine e p ?st1 = Some (err, st1)" and s: "settled k st1" by auto
  show ?case
  proof (cases err)
    case None
    with g Cons.IH [OF s] show ?thesis by simp
  next
    case (Some er)
    with g s show ?thesis by simp
  qed
qed

lemma getPackages_wire:
  "snd (getPackages e registry_url wr) =
     (case url_Parse e registry_url of Inl err \<Rightarrow> wr | Inr u \<Rightarrow> wr @ [(''GET'', u)])"
  by (simp add: getPackages_def http_Get_def Let_def split: sum.splits prod.splits)

lemma getPackages_Inr_wire:
  "getPackages e registry_url wr = (Inr ps, wr') \<Longrightarrow> \<exists>u. wr' = wr @ [(''GET'', u)]"
  by (auto simp: getPackages_def http_Get_def Let_def split: sum.splits prod.splits)

text \<open>
  C1, as the program has it. \<open>getPackages\<close> fetches the index page with \<open>http.Get\<close> of
  the default client: it sends one GET request when the URL parses and none otherwise,
  and it has no \<open>RequestManager\<close> to wait on or to count with. \<open>main\<close> makes the
  manager after the discovery, with both counters at zero. Under the schedule of
  \<open>crawl\<close> the run always ends, and at its end each counter is the number of requests
  sent less one: every request was counted but the fetch of the index page.
\<close>

theorem discovery_not_governed:
  "snd (getPackages e registry_url wr) =
     (case url_Parse e registry_url of Inl err \<Rightarrow> wr | Inr u \<Rightarrow> wr @ [(''GET'', u)])
   \<and> (\<exists>x. main e = Some x
         \<and> (case counters x of
               None \<Rightarrow> True
             | Some (issued, completed) \<Rightarrow>
                 issued + 1 = of_nat (length (sent x)) \<and> completed = issued))"
proof -
  have "\<exists>x. main e = Some x
         \<and> (case counters x of
               None \<Rightarrow> True
             | Some (issued, completed) \<Rightarrow>
                 issued + 1 = of_nat (length (sent x)) \<and> completed = issued)"
  proof (cases "getPackages e ''https://pypi.org/simple/'' []")
    case (Pair r wr1)
    show ?thesis
    proof (cases r)
      case (Inl err)
      with Pair show ?thesis by (simp add: main_def)
    next
      case (Inr ps)
      show ?thesis
      proof (cases "os_Create e")
        case (Some err)
        with Pair Inr show ?thesis by (simp add: main_def)
      next
        case None
        from Pair Inr getPackages_Inr_wire [of e _ "[]" ps wr1] obtain u where
          w: "wr1 = [(''GET'', u)]" by auto
        let ?st = "\<lparr>manager = newRequestManager, wire = wr1,
                         packagesScraped = 0, distributionsFound = 0, totalSizeBytes = 0,
                         writer = csv_Write e [''Package'', ''Distribution'', ''Size'']
                                    \<lparr>buf = [], csv_file = []\<rparr>\<rparr>"
        have "settled 1 ?st" using w by (simp add: settled_def newRequestManager_def)
        from crawl_settled [OF this, of e ps] obtain err st' where
          c: "crawl e ps ?st = Some (err, st')" and s: "settled 1 st'" by auto
        from s have "totalRequests (manager st') + 1 = of_nat (length (wire st'))
            \<and> requestsFinished (manager st') = totalRequests (manager st')"
          by (simp add: settled_def)
        with Pair Inr None c show ?thesis
          by (cases err) (simp_all add: main_def Let_def)
      qed
    qed
  qed
  with getPackages_wire show ?thesis by blast
qed

text \<open>
  A registry whose index page has no anchor: the only request of the run is the fetch
  of the index page, and the counters of the manager are both zero at the end.
\<close>

theorem discovery_outside_governor:
  "map_option sent (main (demo_env [] 1024 2048)) = Some [(''GET'', ''https://pypi.org/simple/'')]
   \<and> map_option counters (main (demo_env [] 1024 2048)) = Some (Some (0, 0))"
  by code_simp

subsection \<open>The output file at the end of a run\<close>

text \<open>
  C7. In the scenario of the claim (two packages, one distribution each, content
  lengths 1024 and 2048) \<open>main\<close> returns, the header and the two rows were given to the
  CSV writer, and \<open>output.csv\<close> is empty: the rows are still in the buffer of the
  writer when the file is closed, since nothing flushes it.
\<close>

theorem output_csv_empty:
  "map_option output_csv (main (demo_env demo_index 1024 2048)) = Some (Some [])
   \<and> map_option report (main (demo_env demo_index 1024 2048)) =
       Some (True,
         ''Package,Distribution,Size\<newline>pkgA,a.whl,1024\<newline>pkgB,b.whl,2048\<newline>'')"
  by code_simp

subsection \<open>Concurrent callers and the running count\<close>

lemma filter_update_count:
  "i < length xs \<Longrightarrow>
     length (filter P (xs[i := y])) + (if P (xs ! i) then 1 else 0)
       = length (filter P xs) + (if P y then 1 else 0)"
proof (induction xs arbitrary: i)
  case Nil
  then show ?case by simp
next
  case (Cons x xs)
  show ?case
  proof (cases i)
    case 0
    then show ?thesis by simp
  next
    case (Suc j)
    with Cons.prems have "j < length xs" by simp
    from Cons.IH [OF this] Suc show ?thesis by simp
  qed
qed

lemma running_same:
  "i < length xs \<Longrightarrow> running (xs ! i) = running y \<Longrightarrow>
     length (filter running (xs[i := y])) = length (filter running xs)"
  using filter_update_count [of i xs running y] by (simp split: if_splits)

lemma running_start:
  "i < length xs \<Longrightarrow> \<not> running (xs ! i) \<Longrightarrow> running y \<Longrightarrow>
     length (filter running (xs[i := y])) = length (filter running xs) + 1"
  using filter_update_count [of i xs running y] by simp

lemma running_stop:
  "i < length xs \<Longrightarrow> running (xs ! i) \<Longrightarrow> \<not> running y \<Longrightarrow>
     length (filter running (xs[i := y])) + 1 = length (filter running xs)"
  using filter_update_count [of i xs running y] by simp

lemma step_pc_balanced:
  assumes "balanced s" and "i < length (callers s)" and "callers s ! i = c"
  shows "balanced (step_pc e i c s)"
proof (cases c)
  case (Issuing m u)
  with assms running_start [of i "callers s" "InFlight m u"] show ?thesis
    by (simp add: balanced_def set_caller_def)
next
  case (Completing r)
  with assms running_stop [of i "callers s" "Returned r"] show ?thesis
    by (simp add: balanced_def set_caller_def) (metis add.assoc add.commute of_nat_Suc)
next
  case (InFlight m u)
  with assms running_same [of i "callers s" "Completing (client_Do e (wire s) m u)"] show ?thesis
    by (simp add: balanced_def set_caller_def)
next
  case (Parsing m u)
  with assms running_same [of i "callers s"] show ?thesis
    by (simp add: balanced_def set_caller_def split: sum.splits)
next
  case (Counted m u r)
  with assms running_same [of i "callers s"] show ?thesis
    by (simp add: balanced_def set_caller_def)
next
  case (LoadedTotal m u t)
  with assms running_same [of i "callers s"] show ?thesis
    by (simp add: balanced_def set_caller_def)
next
  case (Spinning m u)
  with assms running_same [of i "callers s"] show ?thesis
    by (simp add: balanced_def set_caller_def)
qed (use assms in simp_all)

lemma act_balanced: "balanced s \<Longrightarrow> balanced (act e a s)"
proof (cases a)
  case (Step i)
  assume "balanced s"
  with Step step_pc_balanced [of s i "callers s ! i" e] show ?thesis by simp
next
  case (Call i m u)
  assume b: "balanced s"
  show ?thesis
  proof (cases "i < length (callers s)")
    case True
    with b Call running_same [of i "callers s" "Spinning m u"] show ?thesis
      by (cases "callers s ! i") (simp_all add: balanced_def set_caller_def)
  next
    case False
    with b Call show ?thesis by simp
  qed
qed

lemma step_pc_length: "length (callers (step_pc e i c s)) = length (callers s)"
  by (cases c) (simp_all add: set_caller_def split: sum.splits)

lemma act_length: "length (callers (act e a s)) = length (callers s)"
  by (cases a) (simp_all add: step_pc_length set_caller_def split: pc.splits)

lemma exec_balanced: "balanced s \<Longrightarrow> balanced (exec e as s)"
  by (induction as arbitrary: s) (simp_all add: act_balanced)

lemma exec_length: "length (callers (exec e as s)) = length (callers s)"
  by (induction as arbitrary: s) (simp_all add: act_length)

lemma init_balanced: "balanced (init ceiling n)"
  by (simp add: balanced_def init_def newRequestManager_def)

lemma sint_count: "k < 2 ^ 63 \<Longrightarrow> sint (of_nat k :: 64 word) = int k"
proof -
  assume "k < 2 ^ 63"
  then have "int k < 2 ^ 63" by (metis of_nat_less_iff of_nat_numeral of_nat_power)
  then show ?thesis
    by (simp add: signed_of_nat signed_take_bit_int_eq_self)
qed

text \<open>
  C2, as the program has it. In every state that callers of \<open>Request\<close> reach from a
  fresh manager, with fewer than \<open>2 ^ 63\<close> callers, \<open>totalRequests - requestsFinished\<close>
  is not negative: it is the number of callers between their \<open>Add\<close> on \<open>totalRequests\<close>
  and their \<open>Add\<close> on \<open>requestsFinished\<close>, since every call does the first before the
  second. \<open>getRunningRequests\<close> loads the two counters one after the other; when no
  other caller moves between the two loads, it returns that difference.
\<close>

theorem running_count_nonnegative:
  assumes "n < 2 ^ 63" and "s = exec e as (init ceiling n)"
  shows "0 \<le> sint (getRunningRequests (manager s))
       \<and> sint (getRunningRequests (manager s)) = int (length (filter running (callers s)))
       \<and> (\<forall>i m request_url.
             i < length (callers s) \<and> callers s ! i = Spinning m request_url \<longrightarrow>
               callers (exec e [Step i, Step i] s) ! i
                 = Counted m request_url (getRunningRequests (manager s)))"
proof -
  have b: "balanced s" using assms(2) exec_balanced [OF init_balanced] by simp
  have "length (callers s) = n" using assms(2) by (simp add: exec_length init_def)
  moreover have "length (filter running (callers s)) \<le> length (callers s)" by simp
  ultimately have k: "length (filter running (callers s)) < 2 ^ 63" using assms(1) by simp
  from b have "getRunningRequests (manager s) = of_nat (length (filter running (callers s)))"
    by (simp add: balanced_def getRunningRequests_def)
  with sint_count [OF k] have
    c: "sint (getRunningRequests (manager s)) = int (length (filter running (callers s)))"
    by simp
  have "callers (exec e [Step i, Step i] s) ! i
          = Counted m request_url (getRunningRequests (manager s))"
    if "i < length (callers s)" and "callers s ! i = Spinning m request_url"
    for i m request_url
    using that by (simp add: set_caller_def getRunningRequests_def)
  with c show ?thesis by simp
qed

theorem running_count_nonnegative_witness:
  "(2 :: nat) < 2 ^ 63
   \<and> 0 \<le> sint (getRunningRequests
                  (manager (exec (demo_env demo_index 1024 2048) busy (init 10000 2))))
   \<and> sint (getRunningRequests
             (manager (exec (demo_env demo_index 1024 2048) busy (init 10000 2)))) = 1
   \<and> callers (exec (demo_env demo_index 1024 2048) busy (init 10000 2)) ! 0
       = Spinning ''GET'' ''https://pypi.org/simple/pkga/''
   \<and> callers (exec (demo_env demo_index 1024 2048) [Step 0, Step 0]
                (exec (demo_env demo_index 1024 2048) busy (init 10000 2))) ! 0
       = Counted ''GET'' ''https://pypi.org/simple/pkga/'' 1"
proof -
  let ?e = "demo_env demo_index 1024 2048"
  let ?s = "exec ?e busy (init 10000 2)"
  have n: "(2 :: nat) < 2 ^ 63" by simp
  have c: "callers ?s = [Spinning ''GET'' ''https://pypi.org/simple/pkga/'',
                         InFlight ''HEAD'' ''https://files.org/a.whl'']"
    by code_simp
  have l: "0 < length (callers ?s)"
    and c0: "callers ?s ! 0 = Spinning ''GET'' ''https://pypi.org/simple/pkga/''"
    and k: "int (length (filter running (callers ?s))) = 1"
    by (simp_all add: c)
  from running_count_nonnegative [OF n refl, of ?e busy 10000] have
    a: "0 \<le> sint (getRunningRequests (manager ?s))"
    and b: "sint (getRunningRequests (manager ?s)) = int (length (filter running (callers ?s)))"
    and d: "callers (exec ?e [Step 0, Step 0] ?s) ! 0
              = Counted ''GET'' ''https://pypi.org/simple/pkga/'' (getRunningRequests (manager ?s))"
    using l c0 by blast+
  have g: "getRunningRequests (manager ?s) = 1" by code_simp
  from n a b k c0 d g show ?thesis by simp
qed

text \<open>
  Two callers from a fresh manager under the schedule \<open>race\<close>: the first caller loads
  \<open>totalRequests\<close> as 0, the second runs a whole request, the first loads
  \<open>requestsFinished\<close> as 1, and \<open>getRunningRequests\<close> returns \<open>-1\<close> to it.
\<close>

theorem negative_running_count:
  "map returned_count (callers (exec (demo_env demo_index 1024 2048) race (init 10000 2)))
     = [Some (- 1), None]"
  by code_simp

text \<open>
  The two models of \<open>Request\<close> agree: a caller that is left alone from its call to its
  return changes the state as the function \<open>Request\<close> does.
\<close>

lemma Request_as_steps:
  fixes s :: "'u pool"
  assumes "sint (getRunningRequests (manager s)) < sint (maxConcurrentRequests (manager s))"
    and "i < length (callers s)" and "callers s ! i = Idle"
    and "Request e m request_url s = Some (r, s')"
  shows "exec e (Call i m request_url # replicate 7 (Step i)) s = set_caller i (Returned r) s'"
proof (cases "url_Parse e request_url")
  case (Inl err)
  with assms show ?thesis
    by (simp add: Request_open [OF assms(1)] set_caller_def numeral_eq_Suc getRunningRequests_def)
next
  case (Inr u)
  with assms show ?thesis
    by (auto simp: Request_open [OF assms(1)] set_caller_def numeral_eq_Suc getRunningRequests_def)
qed

subsection \<open>The anchors of a page\<close>

lemma strip_prefix_append: "strip_prefix p (p @ s) = Some s"
  by (induction p) simp_all

lemma strip_prefix_None_append:
  "strip_prefix p s = None \<Longrightarrow> r = [] \<or> hd r \<notin> set p \<Longrightarrow> strip_prefix p (s @ r) = None"
proof (induction p s rule: strip_prefix.induct)
  case (1 s)
  then show ?case by simp
next
  case (2 p ps)
  then show ?case by (cases r) auto
next
  case (3 p ps c cs)
  then show ?case by (auto split: if_splits)
qed

lemma strip_prefix_Cons_None_append:
  assumes "strip_prefix (q # ps) (c # s) = None" and "r = [] \<or> hd r \<notin> set ps"
  shows "strip_prefix (q # ps) (c # s @ r) = None"
  using assms strip_prefix_None_append [of ps s r] by (auto split: if_splits)

lemma not_occurs_Cons:
  "\<not> occurs p (c # s) \<Longrightarrow> strip_prefix p (c # s) = None \<and> \<not> occurs p s"
  by simp

lemma occurs_append_left: "occurs p s \<Longrightarrow> occurs p (a @ s)"
  by (induction a) (auto simp del: strip_prefix.simps)

lemma open_tl: "anchor_open = CHR ''<'' # tl anchor_open" "CHR ''<'' \<notin> set (tl anchor_open)"
  by (simp_all add: anchor_open_def dquote_def)

lemma anchor_match_skip:
  assumes "strip_prefix anchor_open (c # s) = None" and "rest = [] \<or> hd rest = CHR ''<''"
  shows "anchor_match (c # s @ rest) = None"
proof -
  from assms(2) open_tl(2) have "rest = [] \<or> hd rest \<notin> set (tl anchor_open)" by auto
  with assms(1) strip_prefix_Cons_None_append [of "CHR ''<''" "tl anchor_open" c s rest]
  have "strip_prefix anchor_open (c # s @ rest) = None"
    using open_tl(1) by metis
  then show ?thesis by (simp add: anchor_match_def)
qed

lemma FindAllSubmatch_skip:
  "\<not> occurs anchor_open lead \<Longrightarrow> rest = [] \<or> hd rest = CHR ''<'' \<Longrightarrow>
     FindAllSubmatch (lead @ rest) = FindAllSubmatch rest"
proof (induction lead)
  case Nil
  then show ?case by simp
next
  case (Cons c lead)
  from Cons.prems(1) have n: "strip_prefix anchor_open (c # lead) = None"
    and o: "\<not> occurs anchor_open lead" by simp_all
  from anchor_match_skip [OF n Cons.prems(2)] Cons.IH [OF o Cons.prems(2)]
  show ?case by simp
qed

lemma close_None:
  assumes "\<not> occurs ''</a>'' sep" and "rest = [] \<or> (\<exists>r. rest = CHR ''<'' # CHR ''a'' # r)"
  shows "strip_prefix ''</a>'' (dropWhile (\<lambda>c. c \<noteq> CHR ''<'') (sep @ rest)) = None"
  using assms(1)
proof (induction sep)
  case Nil
  with assms(2) show ?case by auto
next
  case (Cons c sep)
  show ?case
  proof (cases "c = CHR ''<''")
    case True
    from Cons.prems have "strip_prefix ''</a>'' (c # sep) = None" by simp
    moreover from assms(2) have "rest = [] \<or> hd rest \<notin> set ''/a>''" by auto
    ultimately have "strip_prefix ''</a>'' (c # sep @ rest) = None"
      by (rule strip_prefix_Cons_None_append)
    with True show ?thesis by simp
  next
    case False
    with Cons show ?thesis by simp
  qed
qed

lemma text_close_None:
  assumes "\<not> occurs ''</a>'' sep" and "rest = [] \<or> (\<exists>r. rest = CHR ''<'' # CHR ''a'' # r)"
  shows "text_close (sep @ rest) = None"
  using close_None [OF assms] by (simp add: text_close_def)

lemma dot_star_gt_sep:
  assumes "rest = [] \<or> (\<exists>r. rest = CHR ''<'' # CHR ''a'' # r)"
  shows "\<not> occurs ''</a>'' sep \<Longrightarrow> newline \<in> set sep \<or> rest = [] \<Longrightarrow>
           dot_star_gt (sep @ rest) = None"
proof (induction sep)
  case Nil
  then show ?case by simp
next
  case (Cons c sep)
  show ?case
  proof (cases "c = newline")
    case True
    then show ?thesis by simp
  next
    case False
    from Cons.prems(1) have o: "\<not> occurs ''</a>'' sep" by simp
    from Cons.prems(2) False have "newline \<in> set sep \<or> rest = []" by auto
    from Cons.IH [OF o this] text_close_None [OF o assms] False show ?thesis by simp
  qed
qed

lemma dot_star_gt_close:
  assumes "rest = [] \<or> (\<exists>r. rest = CHR ''<'' # CHR ''a'' # r)"
    and "\<not> occurs ''</a>'' sep" and "newline \<in> set sep \<or> rest = []"
  shows "dot_star_gt (''</a>'' @ sep @ rest) = None"
  using dot_star_gt_sep [OF assms] text_close_None [OF assms(2) assms(1)]
  by (simp add: newline_def)

lemma dot_star_gt_text:
  "CHR ''>'' \<notin> set t \<Longrightarrow> dot_star_gt x = None \<Longrightarrow> dot_star_gt (t @ x) = None"
  by (induction t) auto

lemma text_close_text:
  "CHR ''<'' \<notin> set t \<Longrightarrow> text_close (t @ ''</a>'' @ x) = Some (t, x)"
proof -
  assume t: "CHR ''<'' \<notin> set t"
  have "takeWhile (\<lambda>c. c \<noteq> CHR ''<'') (t @ CHR ''<'' # y) = t"
    and "dropWhile (\<lambda>c. c \<noteq> CHR ''<'') (t @ CHR ''<'' # y) = CHR ''<'' # y" for y
    using t by (induction t) auto
  then show ?thesis by (simp add: text_close_def)
qed

lemma anchor_match_anchor:
  assumes "dquote \<notin> set h" and "CHR ''<'' \<notin> set t" and "CHR ''>'' \<notin> set t"
    and "\<not> occurs ''</a>'' sep" and "newline \<in> set sep \<or> rest = []"
    and "rest = [] \<or> (\<exists>r. rest = CHR ''<'' # CHR ''a'' # r)"
  shows "anchor_match (anchor_html h t @ sep @ rest) = Some ((h, t), sep @ rest)"
proof -
  let ?x = "sep @ rest"
  have q: "takeWhile (\<lambda>c. c \<noteq> dquote) (h @ dquote # y) = h"
    "dropWhile (\<lambda>c. c \<noteq> dquote) (h @ dquote # y) = dquote # y" for y
    using assms(1) by (induction h) auto
  have "dot_star_gt (t @ ''</a>'' @ ?x) = None"
    using dot_star_gt_text [OF assms(3) dot_star_gt_close [OF assms(6) assms(4) assms(5)]] .
  then have d: "dot_star_gt (CHR ''>'' # t @ ''</a>'' @ ?x) = Some (t, ?x)"
    using text_close_text [OF assms(2), of ?x] by (simp add: newline_def)
  have "anchor_html h t @ ?x = anchor_open @ (h @ dquote # CHR ''>'' # t @ ''</a>'' @ ?x)"
    by (simp add: anchor_html_def)
  then have "strip_prefix anchor_open (anchor_html h t @ ?x)
               = Some (h @ dquote # CHR ''>'' # t @ ''</a>'' @ ?x)"
    by (simp only: strip_prefix_append)
  with q d show ?thesis by (simp add: anchor_match_def)
qed

lemma anchor_html_Cons: "anchor_html h t @ x = CHR ''<'' # CHR ''a'' # tl (tl (anchor_html h t @ x))"
  by (simp add: anchor_html_def anchor_open_def)

lemma FindAllSubmatch_anchor:
  assumes "dquote \<notin> set h" and "CHR ''<'' \<notin> set t" and "CHR ''>'' \<notin> set t"
    and "\<not> occurs ''</a>'' sep" and "newline \<in> set sep \<or> rest = []"
    and "rest = [] \<or> (\<exists>r. rest = CHR ''<'' # CHR ''a'' # r)"
  shows "FindAllSubmatch (anchor_html h t @ sep @ rest) = (h, t) # FindAllSubmatch (sep @ rest)"
proof -
  obtain c cs where e: "anchor_html h t @ sep @ rest = c # cs"
    using anchor_html_Cons [of h t "sep @ rest"] by auto
  have "FindAllSubmatch (c # cs) = (h, t) # FindAllSubmatch (sep @ rest)"
    using anchor_match_anchor [OF assms] e by simp
  with e show ?thesis by simp
qed

lemma pieces_head:
  "concat (map piece items) = [] \<or> (\<exists>r. concat (map piece items) = CHR ''<'' # CHR ''a'' # r)"
proof (cases items)
  case Nil
  then show ?thesis by simp
next
  case (Cons x xs)
  obtain h t sep where "x = (h, t, sep)" by (cases x)
  with Cons anchor_html_Cons [of h t "sep @ concat (map piece xs)"] show ?thesis
    by (metis append.assoc concat.simps(2) list.simps(9) piece.simps)
qed

lemma FindAllSubmatch_pieces:
  "\<forall>x\<in>set items. plain x \<Longrightarrow>
     FindAllSubmatch (concat (map piece items)) = map (\<lambda>x. (fst x, fst (snd x))) items"
proof (induction items)
  case Nil
  then show ?case by simp
next
  case (Cons x items)
  obtain h t sep where x: "x = (h, t, sep)" by (cases x)
  let ?rest = "concat (map piece items)"
  from Cons.prems x have p: "dquote \<notin> set h" "CHR ''<'' \<notin> set t" "CHR ''>'' \<notin> set t"
    "\<not> occurs anchor_open sep" "\<not> occurs ''</a>'' sep" "newline \<in> set sep"
    by simp_all
  have r: "?rest = [] \<or> (\<exists>r. ?rest = CHR ''<'' # CHR ''a'' # r)" by (rule pieces_head)
  then have r': "?rest = [] \<or> hd ?rest = CHR ''<''" by auto
  have "FindAllSubmatch (anchor_html h t @ sep @ ?rest) = (h, t) # FindAllSubmatch (sep @ ?rest)"
    using p r by (intro FindAllSubmatch_anchor) simp_all
  also have "FindAllSubmatch (sep @ ?rest) = FindAllSubmatch ?rest"
    using p(4) r' by (rule FindAllSubmatch_skip)
  also have "\<dots> = map (\<lambda>x. (fst x, fst (snd x))) items"
    using Cons.prems by (intro Cons.IH) simp
  finally show ?case using x by simp
qed

lemma strip_prefix_occurs: "strip_prefix (q # ps) s \<noteq> None \<Longrightarrow> occurs (q # ps) s"
  by (cases s) auto

lemma text_close_occurs: "text_close s = Some m \<Longrightarrow> occurs ''</a>'' s"
proof -
  assume "text_close s = Some m"
  then have "strip_prefix ''</a>'' (dropWhile (\<lambda>c. c \<noteq> CHR ''<'') s) \<noteq> None"
    by (auto simp: text_close_def split: option.splits)
  then have "occurs ''</a>'' (dropWhile (\<lambda>c. c \<noteq> CHR ''<'') s)"
    by (rule strip_prefix_occurs)
  from occurs_append_left [OF this, of "takeWhile (\<lambda>c. c \<noteq> CHR ''<'') s"]
  show ?thesis by simp
qed

lemma dot_star_gt_occurs: "dot_star_gt s = Some m \<Longrightarrow> occurs ''</a>'' s"
proof (induction s)
  case Nil
  then show ?case by simp
next
  case (Cons c s)
  then show ?case
    by (auto simp del: occurs.simps simp: occurs.simps(2) [of _ c s]
          split: if_splits option.splits dest: text_close_occurs)
qed

lemma strip_prefix_suffix: "strip_prefix p s = Some r \<Longrightarrow> s = p @ r"
  by (induction p s rule: strip_prefix.induct) (auto split: if_splits)

lemma anchor_match_occurs: "anchor_match s = Some m \<Longrightarrow> occurs ''</a>'' s"
proof -
  assume "anchor_match s = Some m"
  then obtain r1 q r2 x where
    r1: "strip_prefix anchor_open s = Some r1" and
    r2: "dropWhile (\<lambda>c. c \<noteq> dquote) r1 = q # r2" and
    r3: "dot_star_gt r2 = Some x"
    by (auto simp: anchor_match_def split: option.splits list.splits)
  have "r1 = takeWhile (\<lambda>c. c \<noteq> dquote) r1 @ q # r2" using r2
    by (metis takeWhile_dropWhile_id)
  with strip_prefix_suffix [OF r1]
  have "s = (anchor_open @ takeWhile (\<lambda>c. c \<noteq> dquote) r1 @ [q]) @ r2" by simp
  with occurs_append_left [OF dot_star_gt_occurs [OF r3]] show ?thesis by metis
qed

lemma FindAllSubmatch_no_close: "\<not> occurs ''</a>'' body \<Longrightarrow> FindAllSubmatch body = []"
proof (induction body)
  case Nil
  then show ?case by simp
next
  case (Cons c body)
  from Cons.prems have "anchor_match (c # body) = None"
    using anchor_match_occurs [of "c # body"] by (cases "anchor_match (c # body)") auto
  moreover from Cons.prems have "\<not> occurs ''</a>'' body" by simp
  ultimately show ?case using Cons.IH by simp
qed

text \<open>
  C4, as the program has it. On a page whose lead has no opening \<^verbatim>\<open><a href="\<close> and
  whose pieces are plain, \<open>exctractUrls\<close> returns the pair of \<open>href\<close> and text of every
  anchor, in the order of the page, and nothing else. On a body in which the opening
  \<^verbatim>\<open><a href="\<close> does not occur, or the closing \<^verbatim>\<open></a>\<close> does not occur, it
  returns the empty list.
\<close>

theorem exctractUrls_pages:
  assumes "\<not> occurs anchor_open lead" and "\<forall>x\<in>set items. plain x"
  shows "exctractUrls (page lead items) = map tag items
       \<and> (\<not> occurs anchor_open body \<or> \<not> occurs ''</a>'' body \<longrightarrow> exctractUrls body = [])"
proof -
  have r: "concat (map piece items) = [] \<or> hd (concat (map piece items)) = CHR ''<''"
    using pieces_head [of items] by auto
  have "FindAllSubmatch (page lead items) = map (\<lambda>x. (fst x, fst (snd x))) items"
    using FindAllSubmatch_skip [OF assms(1) r] FindAllSubmatch_pieces [OF assms(2)]
    by (simp add: page_def)
  then have a: "exctractUrls (page lead items) = map tag items"
    by (auto simp: exctractUrls_map)
  have "FindAllSubmatch body = []" if "\<not> occurs anchor_open body"
    using FindAllSubmatch_skip [OF that, of "[]"] by simp
  with FindAllSubmatch_no_close [of body] a show ?thesis
    by (auto simp: exctractUrls_map)
qed

theorem exctractUrls_pages_witness:
  "\<not> occurs anchor_open demo_lead
   \<and> plain (''/simple/pkga/'', ''pkgA'', ''<br/>'' @ [newline] @ ''  '')
   \<and> plain (''/simple/pkgb/'', ''pkgB'', ''<br/>'' @ [newline] @ ''</body>'')
   \<and> exctractUrls (page demo_lead demo_items) =
       [\<lparr>href = ''/simple/pkga/'', text' = ''pkgA''\<rparr>,
        \<lparr>href = ''/simple/pkgb/'', text' = ''pkgB''\<rparr>]
   \<and> \<not> occurs anchor_open ''<p>no link</p>''
   \<and> exctractUrls ''<p>no link</p>'' = []"
proof -
  have a: "\<not> occurs anchor_open demo_lead" by code_simp
  have b: "plain (''/simple/pkga/'', ''pkgA'', ''<br/>'' @ [newline] @ ''  '')"
    "plain (''/simple/pkgb/'', ''pkgB'', ''<br/>'' @ [newline] @ ''</body>'')"
    by code_simp+
  then have c: "\<forall>x\<in>set demo_items. plain x" by (simp add: demo_items_def)
  have d: "\<not> occurs anchor_open ''<p>no link</p>''" by code_simp
  from exctractUrls_pages [OF a c, of "''<p>no link</p>''"] d
  have "exctractUrls (page demo_lead demo_items) = map tag demo_items"
    and e: "exctractUrls ''<p>no link</p>'' = []"
    by blast+
  then have "exctractUrls (page demo_lead demo_items) =
       [\<lparr>href = ''/simple/pkga/'', text' = ''pkgA''\<rparr>,
        \<lparr>href = ''/simple/pkgb/'', text' = ''pkgB''\<rparr>]"
    by (simp add: demo_items_def)
  with a b d e show ?thesis by (intro conjI)
qed

text \<open>
  Two anchors on one line: the input contains \<^verbatim>\<open><a href="/simple/pkga/">pkgA</a>\<close>,
  and the output is one pair, the \<open>href\<close> of the first anchor with the text of the
  second; the pair of the first anchor is not in it.
\<close>

theorem anchors_on_one_line:
  "exctractUrls one_line = [\<lparr>href = ''/simple/pkga/'', text' = ''pkgB''\<rparr>]
   \<and> \<lparr>href = ''/simple/pkga/'', text' = ''pkgA''\<rparr> \<notin> set (exctractUrls one_line)"
proof -
  have "exctractUrls one_line = [\<lparr>href = ''/simple/pkga/'', text' = ''pkgB''\<rparr>]"
    by code_simp
  then show ?thesis by simp
qed

subsection \<open>Every call of Request and the counters\<close>

lemma Request_Some_open:
  "Request e method request_url w = Some (r, w') \<Longrightarrow>
     sint (getRunningRequests (manager w)) < sint (maxConcurrentRequests (manager w))"
  using spin_Some_open [of "manager w"]
  by (auto simp: Request_def split: option.splits)

lemma sum_list_update_add:
  fixes f :: "'a \<Rightarrow> nat"
  shows "i < length xs \<Longrightarrow>
     sum_list (map f (xs[i := y])) + f (xs ! i) = sum_list (map f xs) + f y"
proof (induction xs arbitrary: i)
  case Nil
  then show ?case by simp
next
  case (Cons x xs)
  show ?case
  proof (cases i)
    case 0
    then show ?thesis by simp
  next
    case (Suc j)
    with Cons.prems have "j < length xs" by simp
    from Cons.IH [OF this] Suc show ?thesis by simp
  qed
qed

lemma owes_same:
  fixes f :: "'a \<Rightarrow> nat"
  shows "i < length xs \<Longrightarrow> f y = f (xs ! i) \<Longrightarrow>
     sum_list (map f (xs[i := y])) = sum_list (map f xs)"
  using sum_list_update_add [of i xs f y] by simp

lemma owes_less:
  fixes f :: "'a \<Rightarrow> nat"
  shows "i < length xs \<Longrightarrow> f (xs ! i) = f y + k \<Longrightarrow>
     sum_list (map f (xs[i := y])) + k = sum_list (map f xs)"
  using sum_list_update_add [of i xs f y] by simp

lemma owes_more:
  fixes f :: "'a \<Rightarrow> nat"
  shows "i < length xs \<Longrightarrow> f y = f (xs ! i) + k \<Longrightarrow>
     sum_list (map f (xs[i := y])) = sum_list (map f xs) + k"
  using sum_list_update_add [of i xs f y] by simp

lemma step_pc_due:
  assumes "i < length (callers s)" and "callers s ! i = c"
  shows "due_issue e (step_pc e i c s) = due_issue e s
       \<and> due_finish e (step_pc e i c s) = due_finish e s"
proof (cases c)
  case Idle
  then show ?thesis by simp
next
  case (Spinning m u)
  with assms owes_same [of i "callers s" "owes_issue e" "LoadedTotal m u (totalRequests (manager s))"]
    owes_same [of i "callers s" "owes_finish e" "LoadedTotal m u (totalRequests (manager s))"]
  show ?thesis by (simp add: due_issue_def due_finish_def set_caller_def)
next
  case (LoadedTotal m u t)
  with assms owes_same [of i "callers s" "owes_issue e" "Counted m u (t - requestsFinished (manager s))"]
    owes_same [of i "callers s" "owes_finish e" "Counted m u (t - requestsFinished (manager s))"]
  show ?thesis by (simp add: due_issue_def due_finish_def set_caller_def)
next
  case (Counted m u r)
  with assms owes_same [of i "callers s" "owes_issue e" "Spinning m u"]
    owes_same [of i "callers s" "owes_finish e" "Spinning m u"]
    owes_same [of i "callers s" "owes_issue e" "Parsing m u"]
    owes_same [of i "callers s" "owes_finish e" "Parsing m u"]
  show ?thesis by (simp add: due_issue_def due_finish_def set_caller_def)
next
  case (Parsing m u)
  show ?thesis
  proof (cases "url_Parse e u")
    case (Inl err)
    with Parsing assms owes_same [of i "callers s" "owes_issue e" "Returned (Inl err)"]
      owes_same [of i "callers s" "owes_finish e" "Returned (Inl err)"]
    show ?thesis by (simp add: due_issue_def due_finish_def set_caller_def parses_def)
  next
    case (Inr v)
    with Parsing assms owes_same [of i "callers s" "owes_issue e" "Issuing m v"]
      owes_same [of i "callers s" "owes_finish e" "Issuing m v"]
    show ?thesis by (simp add: due_issue_def due_finish_def set_caller_def parses_def)
  qed
next
  case (Issuing m u)
  from Issuing assms owes_less [of i "callers s" "owes_issue e" "InFlight m u" 1]
  have a: "sum_list (map (owes_issue e) ((callers s)[i := InFlight m u])) + 1
             = sum_list (map (owes_issue e) (callers s))" by simp
  from Issuing assms owes_same [of i "callers s" "owes_finish e" "InFlight m u"]
  have b: "sum_list (map (owes_finish e) ((callers s)[i := InFlight m u]))
             = sum_list (map (owes_finish e) (callers s))" by simp
  have "of_nat (sum_list (map (owes_issue e) (callers s)))
      = (of_nat (sum_list (map (owes_issue e) ((callers s)[i := InFlight m u]))) + 1 :: 64 word)"
    using arg_cong [OF a [symmetric], of "of_nat :: nat \<Rightarrow> 64 word"] by simp
  with Issuing b show ?thesis by (simp add: due_issue_def due_finish_def set_caller_def)
next
  case (InFlight m u)
  with assms owes_same [of i "callers s" "owes_issue e" "Completing (client_Do e (wire s) m u)"]
    owes_same [of i "callers s" "owes_finish e" "Completing (client_Do e (wire s) m u)"]
  show ?thesis by (simp add: due_issue_def due_finish_def set_caller_def)
next
  case (Completing r)
  from Completing assms owes_less [of i "callers s" "owes_finish e" "Returned r" 1]
  have a: "sum_list (map (owes_finish e) ((callers s)[i := Returned r])) + 1
             = sum_list (map (owes_finish e) (callers s))" by simp
  from Completing assms owes_same [of i "callers s" "owes_issue e" "Returned r"]
  have b: "sum_list (map (owes_issue e) ((callers s)[i := Returned r]))
             = sum_list (map (owes_issue e) (callers s))" by simp
  have "of_nat (sum_list (map (owes_finish e) (callers s)))
      = (of_nat (sum_list (map (owes_finish e) ((callers s)[i := Returned r]))) + 1 :: 64 word)"
    using arg_cong [OF a [symmetric], of "of_nat :: nat \<Rightarrow> 64 word"] by simp
  with Completing b show ?thesis by (simp add: due_issue_def due_finish_def set_caller_def)
next
  case (Returned r)
  then show ?thesis by simp
qed

lemma call_due:
  assumes "i < length (callers s)" and "outside (callers s ! i)"
  shows "due_issue e (set_caller i (Spinning m request_url) s)
           = due_issue e s + of_nat (parses e request_url)
       \<and> due_finish e (set_caller i (Spinning m request_url) s)
           = due_finish e s + of_nat (parses e request_url)"
proof -
  from assms(2) have z: "owes_issue e (callers s ! i) = 0" "owes_finish e (callers s ! i) = 0"
    by (cases "callers s ! i"; simp)+
  from assms(1) z
    owes_more [of i "callers s" "owes_issue e" "Spinning m request_url" "parses e request_url"]
    owes_more [of i "callers s" "owes_finish e" "Spinning m request_url" "parses e request_url"]
  show ?thesis by (simp add: due_issue_def due_finish_def set_caller_def)
qed

lemma exec_due:
  "due_issue e (exec e as s) = due_issue e s + of_nat (accepted e as s)
   \<and> due_finish e (exec e as s) = due_finish e s + of_nat (accepted e as s)"
proof (induction as arbitrary: s)
  case Nil
  then show ?case by simp
next
  case (Cons a as)
  show ?case
  proof (cases a)
    case (Step i)
    have "due_issue e (act e (Step i) s) = due_issue e s
        \<and> due_finish e (act e (Step i) s) = due_finish e s"
      using step_pc_due [of i s "callers s ! i" e] by simp
    with Step Cons.IH [of "act e (Step i) s"] show ?thesis by simp
  next
    case (Call i m u)
    show ?thesis
    proof (cases "i < length (callers s) \<and> outside (callers s ! i)")
      case True
      then have "act e (Call i m u) s = set_caller i (Spinning m u) s"
        by (cases "callers s ! i") simp_all
      with True call_due [of i s e m u] Call Cons.IH [of "act e (Call i m u) s"]
      show ?thesis by (simp add: add.assoc)
    next
      case False
      then have "act e (Call i m u) s = s"
        by (cases "callers s ! i") auto
      with False Call Cons.IH [of s] show ?thesis by auto
    qed
  qed
qed

lemma calls_counted_once:
  assumes "s = exec e as (init ceiling n)" and "\<forall>c\<in>set (callers s). outside c"
  shows "totalRequests (manager s) = of_nat (accepted e as (init ceiling n))
       \<and> requestsFinished (manager s) = of_nat (accepted e as (init ceiling n))"
proof -
  have z: "sum_list (map (owes_issue e) (callers s)) = 0"
    "sum_list (map (owes_finish e) (callers s)) = 0"
  proof -
    have "owes_issue e c = 0 \<and> owes_finish e c = 0" if "c \<in> set (callers s)" for c
      using assms(2) that by (cases c) auto
    then show "sum_list (map (owes_issue e) (callers s)) = 0"
      "sum_list (map (owes_finish e) (callers s)) = 0"
      by (simp_all add: sum_list_eq_0_iff)
  qed
  have i: "due_issue e (init ceiling n :: 'a pool) = 0" "due_finish e (init ceiling n :: 'a pool) = 0"
    by (simp_all add: due_issue_def due_finish_def init_def newRequestManager_def
          sum_list_replicate)
  from exec_due [of e as "init ceiling n"] assms(1) i
  have "due_issue e s = of_nat (accepted e as (init ceiling n))"
    "due_finish e s = of_nat (accepted e as (init ceiling n))"
    by simp_all
  then show ?thesis unfolding due_issue_def due_finish_def z by simp

qed

text \<open>
  C3. Every call of \<open>Request\<close> that returns: if the URL does not parse, it returns the
  error and leaves the state as it was, so nothing went out on the wire and both
  counters are unchanged; if the URL parses, it returns whatever \<open>Do\<close> returned,
  response or error, one request went out, and \<open>totalRequests\<close> and
  \<open>requestsFinished\<close> are one higher each. A call made where the count is below the
  ceiling returns. \<open>Get\<close> and \<open>Head\<close> are \<open>Request\<close> with their method. For callers
  that run concurrently, under every schedule and however long a call waited at the
  ceiling: once all callers are outside \<open>Request\<close>, each counter is the number of
  calls that were made with a URL that parses.
\<close>

theorem Request_counters:
  "(Request e method request_url w = Some (r, w') \<longrightarrow>
      (case url_Parse e request_url of
         Inl err \<Rightarrow> r = Inl err \<and> w' = w
       | Inr u \<Rightarrow>
           r = client_Do e (wire w) method u
           \<and> w' = w\<lparr>manager := (manager w)\<lparr>totalRequests := totalRequests (manager w) + 1,
                                            requestsFinished := requestsFinished (manager w) + 1\<rparr>,
                    wire := wire w @ [(method, u)]\<rparr>
           \<and> totalRequests (manager w') = totalRequests (manager w) + 1
           \<and> requestsFinished (manager w') = requestsFinished (manager w) + 1
           \<and> wire w' = wire w @ [(method, u)]))
   \<and> (sint (getRunningRequests (manager w)) < sint (maxConcurrentRequests (manager w)) \<longrightarrow>
        (\<exists>r w'. Request e method request_url w = Some (r, w')))
   \<and> Get e request_url w = Request e ''GET'' request_url w
   \<and> Head e request_url w = Request e ''HEAD'' request_url w
   \<and> ((\<forall>c\<in>set (callers (exec e as (init ceiling n))). outside c) \<longrightarrow>
        totalRequests (manager (exec e as (init ceiling n)))
          = of_nat (accepted e as (init ceiling n))
        \<and> requestsFinished (manager (exec e as (init ceiling n)))
          = of_nat (accepted e as (init ceiling n)))"
proof -
  have a: "case url_Parse e request_url of
         Inl err \<Rightarrow> r = Inl err \<and> w' = w
       | Inr u \<Rightarrow>
           r = client_Do e (wire w) method u
           \<and> w' = w\<lparr>manager := (manager w)\<lparr>totalRequests := totalRequests (manager w) + 1,
                                            requestsFinished := requestsFinished (manager w) + 1\<rparr>,
                    wire := wire w @ [(method, u)]\<rparr>
           \<and> totalRequests (manager w') = totalRequests (manager w) + 1
           \<and> requestsFinished (manager w') = requestsFinished (manager w) + 1
           \<and> wire w' = wire w @ [(method, u)]"
    if s: "Request e method request_url w = Some (r, w')"
    using s Request_open [OF Request_Some_open [OF s], of e "method" request_url]
    by (auto split: sum.splits)
  have b: "\<exists>r w'. Request e method request_url w = Some (r, w')"
    if "sint (getRunningRequests (manager w)) < sint (maxConcurrentRequests (manager w))"
    using Request_open [OF that, of e "method" request_url] by (auto split: sum.splits)
  from a b calls_counted_once [OF refl, of e as ceiling n] show ?thesis
    by (simp add: Get_def Head_def)
qed

lemma waiting_run:
  "exec (demo_env demo_index 1024 2048) waiting (init 1 2) =
     \<lparr>manager = newRequestManager
                  \<lparr>totalRequests := 2, requestsFinished := 2, maxConcurrentRequests := 1\<rparr>,
      wire = [(''HEAD'', ''https://files.org/a.whl''), (''GET'', ''https://pypi.org/simple/pkga/'')],
      callers =
        [Returned (Inl (ParseError ''missing protocol scheme'')),
         Returned (Inr (demo_response ''https://files.org/a.whl'' [] 1024))]\<rparr>"
  by code_simp

lemma waiting_slept:
  "callers (exec (demo_env demo_index 1024 2048) (take 10 waiting) (init 1 2)) ! 0
     = Spinning ''GET'' ''https://pypi.org/simple/pkga/''
   \<and> callers (exec (demo_env demo_index 1024 2048) (take 9 waiting) (init 1 2)) ! 0
     = Counted ''GET'' ''https://pypi.org/simple/pkga/'' 1"
  by code_simp

lemma waiting_accepted: "accepted (demo_env demo_index 1024 2048) waiting (init 1 2) = 2"
  by code_simp

theorem Request_counters_witness:
  "sint (getRunningRequests (manager world0)) < sint (maxConcurrentRequests (manager world0))
   \<and> url_Parse (demo_env demo_index 1024 2048) '':bad''
       = Inl (ParseError ''missing protocol scheme'')
   \<and> Request (demo_env demo_index 1024 2048) ''HEAD'' '':bad'' world0
        = Some (Inl (ParseError ''missing protocol scheme''), world0)
   \<and> url_Parse (demo_env demo_index 1024 2048) ''https://files.org/a.whl''
       = Inr ''https://files.org/a.whl''
   \<and> Request (demo_env demo_index 1024 2048) ''HEAD'' ''https://files.org/a.whl'' world0
        = Some (Inr (demo_response ''https://files.org/a.whl'' [] 1024),
                world0\<lparr>manager := (manager world0)\<lparr>totalRequests := 1, requestsFinished := 1\<rparr>,
                       wire := [(''HEAD'', ''https://files.org/a.whl'')]\<rparr>)
   \<and> callers (exec (demo_env demo_index 1024 2048) (take 9 waiting) (init 1 2)) ! 0
       = Counted ''GET'' ''https://pypi.org/simple/pkga/'' 1
   \<and> callers (exec (demo_env demo_index 1024 2048) (take 10 waiting) (init 1 2)) ! 0
       = Spinning ''GET'' ''https://pypi.org/simple/pkga/''
   \<and> callers (exec (demo_env demo_index 1024 2048) waiting (init 1 2))
       = [Returned (Inl (ParseError ''missing protocol scheme'')),
          Returned (Inr (demo_response ''https://files.org/a.whl'' [] 1024))]
   \<and> accepted (demo_env demo_index 1024 2048) waiting (init 1 2) = 2
   \<and> totalRequests (manager (exec (demo_env demo_index 1024 2048) waiting (init 1 2))) = 2
   \<and> requestsFinished (manager (exec (demo_env demo_index 1024 2048) waiting (init 1 2))) = 2"
proof -
  let ?e = "demo_env demo_index 1024 2048"
  have p1: "url_Parse ?e '':bad'' = Inl (ParseError ''missing protocol scheme'')"
    by (simp add: demo_env_def demo_Parse_def)
  have p2: "url_Parse ?e ''https://files.org/a.whl'' = Inr ''https://files.org/a.whl''"
    by (simp add: demo_env_def demo_Parse_def)
  have d: "client_Do ?e (wire world0) ''HEAD'' ''https://files.org/a.whl''
             = Inr (demo_response ''https://files.org/a.whl'' [] 1024)"
    by (simp add: demo_env_def demo_Do_def)
  have t: "totalRequests (manager world0) = 0" "requestsFinished (manager world0) = 0"
    "wire world0 = []"
    by (simp_all add: world0_def newRequestManager_def)
  from Request_counters [of ?e "''HEAD''" "'':bad''" world0] world0_open
  obtain r1 w1 where r1: "Request ?e ''HEAD'' '':bad'' world0 = Some (r1, w1)" by blast
  from Request_counters [of ?e "''HEAD''" "'':bad''" world0 r1 w1] r1 p1
  have a: "Request ?e ''HEAD'' '':bad'' world0
             = Some (Inl (ParseError ''missing protocol scheme''), world0)"
    by simp
  from Request_counters [of ?e "''HEAD''" "''https://files.org/a.whl''" world0] world0_open
  obtain r2 w2 where r2: "Request ?e ''HEAD'' ''https://files.org/a.whl'' world0 = Some (r2, w2)"
    by blast
  from Request_counters [of ?e "''HEAD''" "''https://files.org/a.whl''" world0 r2 w2] r2 p2
  have "r2 = client_Do ?e (wire world0) ''HEAD'' ''https://files.org/a.whl''"
    and "w2 = world0\<lparr>manager := (manager world0)
                        \<lparr>totalRequests := totalRequests (manager world0) + 1,
                         requestsFinished := requestsFinished (manager world0) + 1\<rparr>,
                      wire := wire world0 @ [(''HEAD'', ''https://files.org/a.whl'')]\<rparr>"
    by simp_all
  with r2 d t have b: "Request ?e ''HEAD'' ''https://files.org/a.whl'' world0
        = Some (Inr (demo_response ''https://files.org/a.whl'' [] 1024),
                world0\<lparr>manager := (manager world0)\<lparr>totalRequests := 1, requestsFinished := 1\<rparr>,
                       wire := [(''HEAD'', ''https://files.org/a.whl'')]\<rparr>)"
    by simp
  have c: "callers (exec ?e waiting (init 1 2))
       = [Returned (Inl (ParseError ''missing protocol scheme'')),
          Returned (Inr (demo_response ''https://files.org/a.whl'' [] 1024))]"
    by (simp add: waiting_run)
  then have o: "\<forall>c\<in>set (callers (exec ?e waiting (init 1 2))). outside c" by simp
  from Request_counters [of ?e _ _ _ _ _ waiting 1 2] o
  have "totalRequests (manager (exec ?e waiting (init 1 2)))
          = of_nat (accepted ?e waiting (init 1 2))"
    and "requestsFinished (manager (exec ?e waiting (init 1 2)))
          = of_nat (accepted ?e waiting (init 1 2))"
    by blast+
  then have k: "totalRequests (manager (exec ?e waiting (init 1 2))) = 2"
    "requestsFinished (manager (exec ?e waiting (init 1 2))) = 2"
    by (simp_all add: waiting_accepted)
  from world0_open p1 a p2 b waiting_slept c waiting_accepted k show ?thesis
    by (intro conjI) simp_all
qed

end
